theory Spec2Isabelle
  imports Complex_Main
begin

unbundle bit_operations_syntax

section \<open>JavaScript strings\<close>

text \<open>
  A JavaScript string is a sequence of UTF-16 code units. The feedback parser's regular
  expressions mention the en dash (U+2013), and \<open>\s\<close> and \<open>trim\<close> know white space
  beyond Latin-1, so a string is modelled as the list of its code units. \<open>js\<close> embeds
  an ASCII literal.
\<close>

type_synonym jschar = nat
type_synonym jsstring = "jschar list"

definition js :: "string \<Rightarrow> jsstring" where
  "js s = map of_char s"

text \<open>\<open>\d\<close> without the \<open>u\<close> flag: the ten ASCII digits.\<close>

definition isDigit :: "jschar \<Rightarrow> bool" where
  "isDigit c = (48 \<le> c \<and> c \<le> 57)"

text \<open>The line terminators LF, CR, LS and PS: the characters \<open>.\<close> does not match.\<close>

definition isLineTerminator :: "jschar \<Rightarrow> bool" where
  "isLineTerminator c = (c = 10 \<or> c = 13 \<or> c = 8232 \<or> c = 8233)"

text \<open>
  \<open>\s\<close>, and what \<open>String.prototype.trim\<close> strips: WhiteSpace and LineTerminator of
  ECMAScript (TAB, LF, VT, FF, CR, SP, NBSP, U+1680, U+2000 to U+200A, LS, PS, U+202F,
  U+205F, U+3000, BOM).
\<close>

definition isWhiteSpace :: "jschar \<Rightarrow> bool" where
  "isWhiteSpace c =
     ((9 \<le> c \<and> c \<le> 13) \<or> c = 32 \<or> c = 160 \<or> c = 5760 \<or> (8192 \<le> c \<and> c \<le> 8202)
      \<or> c = 8232 \<or> c = 8233 \<or> c = 8239 \<or> c = 8287 \<or> c = 12288 \<or> c = 65279)"

definition anyChar :: "jschar \<Rightarrow> bool" where
  "anyChar c = (\<not> isLineTerminator c)"

text \<open>\<open>[-\<endash>]\<close>: hyphen-minus or en dash.\<close>

definition isDash :: "jschar \<Rightarrow> bool" where
  "isDash c = (c = 45 \<or> c = 8211)"

text \<open>\<open>[\/\s]\<close>\<close>

definition isSlashOrSpace :: "jschar \<Rightarrow> bool" where
  "isSlashOrSpace c = (c = 47 \<or> isWhiteSpace c)"

text \<open>
  Canonicalize of the \<open>i\<close> flag (no \<open>u\<close> flag): a character is compared by its upper
  case, and a character from 128 on never folds to an ASCII one. All letters of the
  patterns are ASCII, so folding the ASCII lower-case letters decides every comparison
  with them; the other code units are left as they are.
\<close>

definition canonicalize :: "jschar \<Rightarrow> jschar" where
  "canonicalize c = (if 97 \<le> c \<and> c \<le> 122 then c - 32 else c)"

definition trim :: "jsstring \<Rightarrow> jsstring" where
  "trim s = rev (dropWhile isWhiteSpace (rev (dropWhile isWhiteSpace s)))"

section \<open>Backtracking regular expressions\<close>

text \<open>
  The constructs the patterns of the repository use. Every quantified atom in them is a
  character class, so \<open>Star\<close> and \<open>Plus\<close> take a class. The matcher returns the list
  of all ways to match, in the order in which a backtracking matcher tries them (greedy
  quantifiers take the longest first, the left alternative comes first): the head of the
  list is the match JavaScript reports.
\<close>

datatype regex =
    Bol
  | Eol
  | Chr jschar
  | ChrI jschar
  | Class "jschar \<Rightarrow> bool"
  | Star "jschar \<Rightarrow> bool"
  | Plus "jschar \<Rightarrow> bool"
  | Opt regex
  | Seq regex regex
  | Alt regex regex
  | Group nat regex

record mstate =
  pos :: nat
  rest :: jsstring
  caps :: "nat \<rightharpoonup> jsstring"

text \<open>The remainders a greedy \<open>p*\<close> can leave, the shortest remainder first.\<close>

fun star :: "(jschar \<Rightarrow> bool) \<Rightarrow> jsstring \<Rightarrow> jsstring list" where
  "star p [] = [[]]"
| "star p (c # cs) = (if p c then star p cs @ [c # cs] else [c # cs])"

definition advance :: "mstate \<Rightarrow> jsstring \<Rightarrow> mstate" where
  "advance st r = st\<lparr>pos := pos st + (length (rest st) - length r), rest := r\<rparr>"

definition consumed :: "mstate \<Rightarrow> mstate \<Rightarrow> jsstring" where
  "consumed st st' = take (length (rest st) - length (rest st')) (rest st)"

definition one :: "(jschar \<Rightarrow> bool) \<Rightarrow> mstate \<Rightarrow> mstate list" where
  "one p st = (case rest st of [] \<Rightarrow> [] | c # cs \<Rightarrow> if p c then [advance st cs] else [])"

fun rmatch :: "regex \<Rightarrow> mstate \<Rightarrow> mstate list" where
  "rmatch Bol st = (if pos st = 0 then [st] else [])"
| "rmatch Eol st = (if rest st = [] then [st] else [])"
| "rmatch (Chr a) st = one (\<lambda>c. c = a) st"
| "rmatch (ChrI a) st = one (\<lambda>c. canonicalize c = canonicalize a) st"
| "rmatch (Class p) st = one p st"
| "rmatch (Star p) st = map (advance st) (star p (rest st))"
| "rmatch (Plus p) st = concat (map (\<lambda>st'. map (advance st') (star p (rest st'))) (one p st))"
| "rmatch (Opt a) st = rmatch a st @ [st]"
| "rmatch (Seq a b) st = concat (map (rmatch b) (rmatch a st))"
| "rmatch (Alt a b) st = rmatch a st @ rmatch b st"
| "rmatch (Group n a) st =
     map (\<lambda>st'. st'\<lparr>caps := (caps st')(n \<mapsto> consumed st st')\<rparr>) (rmatch a st)"

text \<open>
  \<open>String.prototype.match\<close> with a non-global pattern: the start positions are tried
  from left to right, and the first position with a match gives the result, the array of
  the capture groups (\<open>None\<close> for a group that took no part).
\<close>

fun exec_from :: "regex \<Rightarrow> nat \<Rightarrow> jsstring \<Rightarrow> (nat \<rightharpoonup> jsstring) option" where
  "exec_from r i [] =
     (case rmatch r \<lparr>pos = i, rest = [], caps = Map.empty\<rparr> of
        [] \<Rightarrow> None | st # _ \<Rightarrow> Some (caps st))"
| "exec_from r i (c # cs) =
     (case rmatch r \<lparr>pos = i, rest = c # cs, caps = Map.empty\<rparr> of
        [] \<Rightarrow> exec_from r (Suc i) cs | st # _ \<Rightarrow> Some (caps st))"

definition match :: "jsstring \<Rightarrow> regex \<Rightarrow> (nat \<rightharpoonup> jsstring) option" where
  "match s r = exec_from r 0 s"

fun seqs :: "regex list \<Rightarrow> regex" where
  "seqs [r] = r"
| "seqs (r # rs) = Seq r (seqs rs)"
| "seqs [] = Opt Eol"

definition lit :: "string \<Rightarrow> regex" where
  "lit s = seqs (map (\<lambda>c. Chr (of_char c)) s)"

definition litI :: "string \<Rightarrow> regex" where
  "litI s = seqs (map (\<lambda>c. ChrI (of_char c)) s)"

section \<open>The feedback parser\<close>

text \<open>\<open>/^(\d)[\/\s]*(?:stars?|\/5)?(?:\s*[-\<endash>]\s*(.+))?$/i\<close>\<close>

definition pattern1 :: regex where
  "pattern1 =
     seqs [Bol, Group 1 (Class isDigit), Star isSlashOrSpace,
           Opt (Alt (Seq (litI ''star'') (Opt (ChrI (of_char CHR ''s'')))) (lit ''/5'')),
           Opt (seqs [Star isWhiteSpace, Class isDash, Star isWhiteSpace, Group 2 (Plus anyChar)]),
           Eol]"

text \<open>\<open>/(?:rating|score):\s*(\d)(?:\s*[-\<endash>]\s*(.+))?$/i\<close>\<close>

definition pattern2 :: regex where
  "pattern2 =
     seqs [Alt (litI ''rating'') (litI ''score''), Chr (of_char CHR '':''), Star isWhiteSpace,
           Group 1 (Class isDigit),
           Opt (seqs [Star isWhiteSpace, Class isDash, Star isWhiteSpace, Group 2 (Plus anyChar)]),
           Eol]"

text \<open>\<open>/^(\d)\s*[-\<endash>]\s*(.+)$/\<close>\<close>

definition pattern3 :: regex where
  "pattern3 =
     seqs [Bol, Group 1 (Class isDigit), Star isWhiteSpace, Class isDash, Star isWhiteSpace,
           Group 2 (Plus anyChar), Eol]"

text \<open>\<open>/^(\d)$/\<close>\<close>

definition pattern4 :: regex where
  "pattern4 = seqs [Bol, Group 1 (Class isDigit), Eol]"

text \<open>
  \<open>parseInt\<close> on a capture: the decimal value of the leading digits, \<open>None\<close> (NaN)
  when the group is undefined or does not start with a digit. (Group 1 of every pattern is
  one \<open>\d\<close>, so sign, white space and radix prefixes never occur.)
\<close>

fun digits_value :: "int \<Rightarrow> jsstring \<Rightarrow> int" where
  "digits_value acc [] = acc"
| "digits_value acc (c # cs) =
     (if isDigit c then digits_value (10 * acc + (int c - 48)) cs else acc)"

definition parseInt :: "jsstring option \<Rightarrow> int option" where
  "parseInt g =
     (case g of
        None \<Rightarrow> None
      | Some [] \<Rightarrow> None
      | Some (c # cs) \<Rightarrow> if isDigit c then Some (digits_value 0 (c # cs)) else None)"

text \<open>\<open>match[2] || ""\<close>\<close>

definition or_empty :: "jsstring option \<Rightarrow> jsstring" where
  "or_empty g = (case g of None \<Rightarrow> [] | Some v \<Rightarrow> v)"

text \<open>
  One block of the parser: \<open>if (match) { rating = parseInt(match[1]); if (rating >= 1 &&
  rating <= 5) return {rating, comment} }\<close>. \<open>None\<close> means the block fell through.
  The third block takes \<open>match[2]\<close> as it is, where group 2 always takes part, and the
  fourth has no group 2 and returns the empty comment: \<open>or_empty\<close> gives both.
\<close>

definition rated :: "(nat \<rightharpoonup> jsstring) option \<Rightarrow> (int \<times> jsstring) option" where
  "rated m =
     (case m of
        None \<Rightarrow> None
      | Some g \<Rightarrow>
          (case parseInt (g 1) of
             None \<Rightarrow> None
           | Some rating \<Rightarrow> if rating \<ge> 1 \<and> rating \<le> 5 then Some (rating, or_empty (g 2)) else None))"

definition parseUserFeedback :: "jsstring \<Rightarrow> (int \<times> jsstring) option" where
  "parseUserFeedback userInput =
     (let input = trim userInput in
      case rated (match input pattern1) of
        Some r \<Rightarrow> Some r
      | None \<Rightarrow>
     (case rated (match input pattern2) of
        Some r \<Rightarrow> Some r
      | None \<Rightarrow>
     (case rated (match input pattern3) of
        Some r \<Rightarrow> Some r
      | None \<Rightarrow>
     (case rated (match input pattern4) of
        Some r \<Rightarrow> Some r
      | None \<Rightarrow> None))))"

section \<open>Numbers as text, and substring search\<close>

text \<open>\<open>String(n)\<close> for a non-negative integer, and for any integer.\<close>

fun decimal :: "nat \<Rightarrow> jsstring" where
  "decimal n = (if n < 10 then [48 + n] else decimal (n div 10) @ [48 + n mod 10])"

declare decimal.simps [simp del]

definition show_int :: "int \<Rightarrow> jsstring" where
  "show_int i = (if i < 0 then 45 # decimal (nat (- i)) else decimal (nat i))"

text \<open>\<open>String.prototype.includes\<close>\<close>

fun js_includes :: "jsstring \<Rightarrow> jsstring \<Rightarrow> bool" where
  "js_includes [] t = (t = [])"
| "js_includes (c # cs) t = (take (length t) (c # cs) = t \<or> js_includes cs t)"

text \<open>Truthiness of a string-valued property that may be absent: absent and \<open>""\<close> are falsy.\<close>

definition truthy :: "jsstring option \<Rightarrow> jsstring option" where
  "truthy v = (case v of None \<Rightarrow> None | Some s \<Rightarrow> if s = [] then None else Some s)"

section \<open>Star ratings and scores\<close>

text \<open>
  \<open>convertStarRatingToScore\<close>. JavaScript numbers are binary64 floating-point numbers;
  for the integers of small magnitude the function is applied to, \<open>starRating - 1\<close> is
  exact, and so is the division by 4 (a power of two), so the real-valued quotient is the
  number the code computes.
\<close>

definition convertStarRatingToScore :: "int \<Rightarrow> real" where
  "convertStarRatingToScore starRating = (real_of_int starRating - 1) / 4"

section \<open>Persistent storage and the auth store\<close>

text \<open>
  \<open>PersistentStorage.load\<close> returns the parsed file, or the default when the file is
  missing or does not parse (\<open>None\<close>). \<open>save\<close> rewrites the file and returns true, or
  leaves it alone and returns false when the file system fails.
\<close>

definition load :: "'a \<Rightarrow> 'a option \<Rightarrow> 'a" where
  "load defaultValue file = (case file of None \<Rightarrow> defaultValue | Some d \<Rightarrow> d)"

definition save :: "bool \<Rightarrow> 'a \<Rightarrow> 'a option \<Rightarrow> bool \<times> 'a option" where
  "save fs_ok d file = (if fs_ok then (True, Some d) else (False, file))"

text \<open>
  \<open>new Date(s)\<close> of a stored string: a time in milliseconds since the epoch, or an
  invalid date, whose arithmetic gives NaN.
\<close>

datatype date = Date int | InvalidDate

text \<open>
  The auth file. \<open>lastLoginTime\<close> is kept as the date its string parses to; \<open>None\<close>
  is \<open>null\<close>, a missing field or the empty string (the falsy values).
\<close>

record auth_data =
  isLoggedIn :: bool
  cookies :: "jsstring list"
  token :: "jsstring option"
  userData :: "jsstring option"
  lastLoginTime :: "date option"

definition defaultAuthData :: auth_data where
  "defaultAuthData =
     \<lparr>isLoggedIn = False, cookies = [], token = None, userData = None, lastLoginTime = None\<rparr>"

definition loadAuthData :: "int \<Rightarrow> auth_data option \<Rightarrow> auth_data" where
  "loadAuthData now file =
     (let data = load defaultAuthData file in
      case lastLoginTime data of
        None \<Rightarrow> data
      | Some InvalidDate \<Rightarrow> data
      | Some (Date lastLogin) \<Rightarrow>
          (let hoursAgo = real_of_int (now - lastLogin) / (1000 * 60 * 60) in
           if hoursAgo > 24 then defaultAuthData else data))"

section \<open>The conversation store\<close>

text \<open>
  A message as it is written to \<open>conversations.json\<close>. \<open>tool_calls\<close> and
  \<open>tool_call_id\<close> are \<open>None\<close> for \<open>null\<close>; a tool call itself is opaque.
\<close>

record 'tc message_data =
  mtype :: jsstring
  content :: jsstring
  timestamp :: jsstring
  tool_calls :: "'tc list option"
  tool_call_id :: "jsstring option"

text \<open>
  A message in memory is an instance of a message class of the chat library, with the type
  its \<open>_getType()\<close> returns, its content and the \<open>tool_calls\<close> and \<open>tool_call_id\<close>
  properties (\<open>None\<close> when absent), or a plain object as \<open>deserializeMessage\<close> returns
  it for a type it does not know.
\<close>

datatype 'tc message =
    Instance jsstring jsstring "'tc list option" "jsstring option"
  | PlainObject "'tc message_data"

text \<open>
  \<open>new HumanMessage(content)\<close> and \<open>new AIMessage(content)\<close>. The classes belong to
  the chat library; the value of \<open>tool_calls\<close> on a fresh AI message is the library's
  choice and is a parameter here.
\<close>

definition HumanMessage :: "jsstring \<Rightarrow> 'tc message" where
  "HumanMessage c = Instance (js ''human'') c None None"

definition AIMessage :: "'tc list option \<Rightarrow> jsstring \<Rightarrow> 'tc message" where
  "AIMessage ai_default c = Instance (js ''ai'') c ai_default None"

fun message_content :: "'tc message \<Rightarrow> jsstring" where
  "message_content (Instance t c tcs tid) = c"
| "message_content (PlainObject d) = content d"

fun message_tool_calls :: "'tc message \<Rightarrow> 'tc list option" where
  "message_tool_calls (Instance t c tcs tid) = tcs"
| "message_tool_calls (PlainObject d) = tool_calls d"

fun message_tool_call_id :: "'tc message \<Rightarrow> jsstring option" where
  "message_tool_call_id (Instance t c tcs tid) = tid"
| "message_tool_call_id (PlainObject d) = tool_call_id d"

text \<open>
  \<open>getMessageType\<close>: an instance answers with \<open>_getType()\<close>; a plain object has the
  constructor name \<open>Object\<close>, so its \<open>type\<close> property decides when it is truthy, and
  else a non-empty \<open>tool_calls\<close> makes it an AI message.
\<close>

fun getMessageType :: "'tc message \<Rightarrow> jsstring" where
  "getMessageType (Instance t c tcs tid) = t"
| "getMessageType (PlainObject d) =
     (if mtype d \<noteq> [] then mtype d
      else if (case tool_calls d of None \<Rightarrow> False | Some tcs \<Rightarrow> length tcs > 0) then js ''ai''
      else js ''unknown'')"

definition isHumanMessage :: "'tc message \<Rightarrow> bool" where
  "isHumanMessage message = (getMessageType message = js ''human'')"

text \<open>
  \<open>serializeMessage\<close>. An array is truthy, also when it is empty, so
  \<open>message.tool_calls || null\<close> keeps it; an empty \<open>tool_call_id\<close> becomes \<open>null\<close>.
\<close>

definition serializeMessage :: "jsstring \<Rightarrow> 'tc message \<Rightarrow> 'tc message_data" where
  "serializeMessage now message =
     \<lparr>mtype = getMessageType message,
      content = message_content message,
      timestamp = now,
      tool_calls = message_tool_calls message,
      tool_call_id = truthy (message_tool_call_id message)\<rparr>"

definition deserializeMessage :: "'tc list option \<Rightarrow> 'tc message_data \<Rightarrow> 'tc message" where
  "deserializeMessage ai_default messageData =
     (if mtype messageData = js ''human'' then HumanMessage (content messageData)
      else if mtype messageData = js ''ai'' then
        (case tool_calls messageData of
           Some tcs \<Rightarrow> Instance (js ''ai'') (content messageData) (Some tcs) None
         | None \<Rightarrow> AIMessage ai_default (content messageData))
      else PlainObject messageData)"

record 'm conversation =
  cid :: jsstring
  title :: jsstring
  messages :: "'m list"
  createdAt :: jsstring
  updatedAt :: jsstring

text \<open>\<open>{...conv, messages: conv.messages.map(f)}\<close>\<close>

definition map_messages :: "('a \<Rightarrow> 'b) \<Rightarrow> 'a conversation \<Rightarrow> 'b conversation" where
  "map_messages f conv =
     \<lparr>cid = cid conv, title = title conv, messages = map f (messages conv),
      createdAt = createdAt conv, updatedAt = updatedAt conv\<rparr>"

text \<open>
  What the environment answers while the store works: whether the file system accepts the
  write, \<open>Date.now()\<close>, \<open>new Date().toISOString()\<close> and \<open>new Date().toLocaleString()\<close>
  (the clock is read once per operation here), and the library's default for
  \<open>tool_calls\<close>.
\<close>

record 'tc store_env =
  fs_ok :: bool
  dateNow :: nat
  isoNow :: jsstring
  localeNow :: jsstring
  ai_default :: "'tc list option"

type_synonym 'tc conversations_file = "'tc message_data conversation list option"

definition maxHistorySize :: nat where
  "maxHistorySize = 100"

definition loadConversations ::
  "'tc store_env \<Rightarrow> 'tc conversations_file \<Rightarrow> 'tc message conversation list" where
  "loadConversations e file =
     map (map_messages (deserializeMessage (ai_default e))) (load [] file)"

definition saveConversations ::
  "'tc store_env \<Rightarrow> 'tc message conversation list \<Rightarrow> 'tc conversations_file
     \<Rightarrow> bool \<times> 'tc conversations_file" where
  "saveConversations e conversations file =
     save (fs_ok e) (map (map_messages (serializeMessage (isoNow e))) conversations) file"

definition generateTitle :: "'tc store_env \<Rightarrow> 'tc message list \<Rightarrow> jsstring" where
  "generateTitle e msgs =
     (if length msgs = 0 then js ''New conversation''
      else
        (case find isHumanMessage msgs of
           Some firstHumanMessage \<Rightarrow>
             (let title0 = take 30 (message_content firstHumanMessage) in
              if length (message_content firstHumanMessage) > 30 then title0 @ js ''...''
              else title0)
         | None \<Rightarrow> js ''Conversation '' @ localeNow e))"

text \<open>\<open>addConversation\<close> returns the new id and leaves the file as \<open>saveConversations\<close> does.\<close>

definition addConversation ::
  "'tc store_env \<Rightarrow> 'tc message list \<Rightarrow> jsstring option \<Rightarrow> 'tc conversations_file
     \<Rightarrow> jsstring \<times> 'tc conversations_file" where
  "addConversation e msgs title0 file =
     (let conversations = loadConversations e file;
          newConversation =
            \<lparr>cid = decimal (dateNow e),
             title = (case truthy title0 of Some t \<Rightarrow> t | None \<Rightarrow> generateTitle e msgs),
             messages = msgs,
             createdAt = isoNow e,
             updatedAt = isoNow e\<rparr>;
          conversations1 = newConversation # conversations;
          conversations2 =
            (if length conversations1 > maxHistorySize then take maxHistorySize conversations1
             else conversations1)
      in (cid newConversation, snd (saveConversations e conversations2 file)))"

fun findIndex :: "('a \<Rightarrow> bool) \<Rightarrow> 'a list \<Rightarrow> nat option" where
  "findIndex p [] = None"
| "findIndex p (x # xs) = (if p x then Some 0 else map_option Suc (findIndex p xs))"

definition updateConversation ::
  "'tc store_env \<Rightarrow> jsstring \<Rightarrow> 'tc message list \<Rightarrow> 'tc conversations_file
     \<Rightarrow> bool \<times> 'tc conversations_file" where
  "updateConversation e conversationId msgs file =
     (let conversations = loadConversations e file in
      case findIndex (\<lambda>conv. cid conv = conversationId) conversations of
        Some index \<Rightarrow>
          (True,
           snd (saveConversations e
                  (conversations[index :=
                     (conversations ! index)\<lparr>messages := msgs, updatedAt := isoNow e\<rparr>])
                  file))
      | None \<Rightarrow> (False, file))"

section \<open>The feedback service\<close>

text \<open>\<open>Number.prototype.toString(16)\<close> for a non-negative integer.\<close>

fun toString16 :: "nat \<Rightarrow> jsstring" where
  "toString16 n =
     (let d = n mod 16; c = (if d < 10 then 48 + d else 87 + d) in
      if n < 16 then [c] else toString16 (n div 16) @ [c])"

declare toString16.simps [simp del]

text \<open>
  \<open>generateUUID\<close>: every \<open>x\<close> and \<open>y\<close> of the template is replaced, from left to
  right; \<open>rnd k\<close> is the value of \<open>Math.random() * 16 | 0\<close> at the \<open>k\<close>-th of them.
\<close>

fun fill_template :: "(nat \<Rightarrow> nat) \<Rightarrow> nat \<Rightarrow> string \<Rightarrow> jsstring" where
  "fill_template rnd k [] = []"
| "fill_template rnd k (c # cs) =
     (if c = CHR ''x'' \<or> c = CHR ''y'' then
        (let r = rnd k;
             v = (if c = CHR ''x'' then r else (r AND 3) OR 8)
         in toString16 v @ fill_template rnd (Suc k) cs)
      else of_char c # fill_template rnd k cs)"

definition generateUUID :: "(nat \<Rightarrow> nat) \<Rightarrow> jsstring" where
  "generateUUID rnd = fill_template rnd 0 ''xxxxxxxx-xxxx-4xxx-yxxx-xxxxxxxxxxxx''"

text \<open>
  \<open>/^[0-9a-f]{8}-[0-9a-f]{4}-[1-5][0-9a-f]{3}-[89ab][0-9a-f]{3}-[0-9a-f]{12}$/i\<close>;
  under the \<open>i\<close> flag the letters of a class match in both cases.
\<close>

definition isHex :: "jschar \<Rightarrow> bool" where
  "isHex c = (isDigit c \<or> (65 \<le> canonicalize c \<and> canonicalize c \<le> 70))"

definition uuidRegex :: regex where
  "uuidRegex =
     seqs ([Bol] @ replicate 8 (Class isHex) @ [Chr 45] @ replicate 4 (Class isHex) @ [Chr 45]
           @ [Class (\<lambda>c. 49 \<le> c \<and> c \<le> 53)] @ replicate 3 (Class isHex) @ [Chr 45]
           @ [Class (\<lambda>c. c = 56 \<or> c = 57 \<or> canonicalize c = 65 \<or> canonicalize c = 66)]
           @ replicate 3 (Class isHex) @ [Chr 45] @ replicate 12 (Class isHex) @ [Eol])"

text \<open>\<open>RegExp.prototype.test\<close>\<close>

definition test :: "regex \<Rightarrow> jsstring \<Rightarrow> bool" where
  "test r s = (match s r \<noteq> None)"

text \<open>
  What the environment answers during one run of the body of \<open>collectFeedback\<close>:
  whether \<open>LANGCHAIN_API_KEY\<close> is set (and the client constructs), the id of the current
  run tree (\<open>None\<close> when there is none or \<open>getCurrentRunTree\<close> throws), the random
  numbers, the clock, and what \<open>createFeedback\<close> does: it resolves with a record, which
  may carry an id, or throws an error with a message.
\<close>

datatype remote_reply = Created "jsstring option" | Rejected jsstring

record answers =
  apiKey :: bool
  runTreeId :: "jsstring option"
  random16 :: "nat \<Rightarrow> nat"
  random36 :: jsstring
  nowMs :: nat
  nowIso :: jsstring
  createFeedback :: remote_reply

record thread_manager =
  currentThreadId :: "jsstring option"

text \<open>
  The argument of \<open>collectFeedback\<close>: \<open>fd_starRating\<close> is
  \<open>parseInt(feedbackData.starRating)\<close>, \<open>None\<close> when that is NaN; the other
  properties are \<open>None\<close> when they are absent.
\<close>

record feedback_data =
  fd_starRating :: "int option"
  fd_comment :: "jsstring option"
  fd_key :: "jsstring option"
  fd_runId :: "jsstring option"

record feedback =
  starRating :: int
  score :: real
  comment :: jsstring
  key :: jsstring
  runId :: jsstring
  fb_timestamp :: jsstring
  threadId :: "jsstring option"
  sessionId :: "jsstring option"
  conversationId :: "jsstring option"

record service =
  langsmithClient :: bool
  isInitialized :: bool
  pendingFeedback :: "jsstring \<rightharpoonup> feedback"

record feedback_result =
  success :: bool
  submitted :: bool
  res_runId :: "jsstring option"
  feedbackId :: "jsstring option"
  localId :: "jsstring option"
  res_feedback :: feedback
  error :: "jsstring option"
  message :: jsstring

definition new_service :: service where
  "new_service = \<lparr>langsmithClient = False, isInitialized = False, pendingFeedback = Map.empty\<rparr>"

definition initialize :: "answers \<Rightarrow> service \<Rightarrow> service" where
  "initialize a svc =
     (if isInitialized svc then svc
      else if apiKey a then svc\<lparr>langsmithClient := True, isInitialized := True\<rparr>
      else svc\<lparr>isInitialized := True\<rparr>)"

definition getCurrentRunId :: "answers \<Rightarrow> jsstring option" where
  "getCurrentRunId a =
     (case truthy (runTreeId a) of
        Some rid \<Rightarrow> if test uuidRegex rid then Some rid else None
      | None \<Rightarrow> None)"

definition getRunIdFromContext :: "answers \<Rightarrow> thread_manager option \<Rightarrow> jsstring" where
  "getRunIdFromContext a threadManager =
     (case truthy (getCurrentRunId a) of
        Some rid \<Rightarrow> rid
      | None \<Rightarrow>
          (case threadManager of
             None \<Rightarrow> generateUUID (random16 a)
           | Some tm \<Rightarrow>
               (case truthy (currentThreadId tm) of
                  None \<Rightarrow> generateUUID (random16 a)
                | Some tid \<Rightarrow> if test uuidRegex tid then tid else generateUUID (random16 a))))"

text \<open>\<open>feedbackData.runId || await this.getRunIdFromContext(threadManager)\<close>\<close>

definition resolveRunId :: "answers \<Rightarrow> feedback_data \<Rightarrow> thread_manager option \<Rightarrow> jsstring" where
  "resolveRunId a feedbackData threadManager =
     (case truthy (fd_runId feedbackData) of
        Some r \<Rightarrow> r
      | None \<Rightarrow> getRunIdFromContext a threadManager)"

definition getStarEmoji :: "int \<Rightarrow> jsstring + jsstring" where
  "getStarEmoji r =
     (if r < 0 \<or> 5 - r < 0 then Inl (js ''Invalid count value'')
      else Inr (replicate (nat r) 11088 @ replicate (nat (5 - r)) 9734))"

definition rating_error :: jsstring where
  "rating_error = js ''Star rating must be between 1 and 5''"

definition thread_of :: "thread_manager option \<Rightarrow> jsstring option" where
  "thread_of threadManager =
     (case threadManager of None \<Rightarrow> None | Some tm \<Rightarrow> truthy (currentThreadId tm))"

definition local_id :: "answers \<Rightarrow> jsstring" where
  "local_id a = js ''local_'' @ decimal (nowMs a) @ js ''_'' @ random36 a"

text \<open>
  \<open>collectFeedback\<close>. The result is the thrown error message or the returned object,
  with the service as the call leaves it. \<open>world n\<close> holds the answers of the
  environment during the \<open>n\<close>-th run of the body: the retry after a lazy initialization
  is a second run, and it is called without the thread manager, as in the source.
\<close>

function collectFeedback ::
  "(nat \<Rightarrow> answers) \<Rightarrow> nat \<Rightarrow> service \<Rightarrow> feedback_data \<Rightarrow> thread_manager option
     \<Rightarrow> (jsstring + feedback_result) \<times> service" where
  "collectFeedback world n svc feedbackData threadManager =
     (case fd_starRating feedbackData of
        None \<Rightarrow> (Inl rating_error, svc)
      | Some stars \<Rightarrow>
          if stars < 1 \<or> stars > 5 then (Inl rating_error, svc)
          else
            (let a = world n;
                 rid = resolveRunId a feedbackData threadManager;
                 fb = \<lparr>starRating = stars,
                       score = convertStarRatingToScore stars,
                       comment = or_empty (fd_comment feedbackData),
                       key = (case truthy (fd_key feedbackData) of
                                Some k \<Rightarrow> k | None \<Rightarrow> js ''user_rating''),
                       runId = rid,
                       fb_timestamp = nowIso a,
                       threadId = thread_of threadManager,
                       sessionId = thread_of threadManager,
                       conversationId = thread_of threadManager\<rparr>
             in
               if langsmithClient svc \<and> rid \<noteq> [] then
                 (case createFeedback a of
                    Created fid \<Rightarrow>
                      (Inr \<lparr>success = True, submitted = True, res_runId = Some rid,
                            feedbackId = fid, localId = None, res_feedback = fb, error = None,
                            message = [9989] @ js '' Thank you! Your '' @ show_int stars
                              @ js ''-star rating has been submitted to improve our AI system.''\<rparr>,
                       svc)
                  | Rejected msg \<Rightarrow>
                      (Inr \<lparr>success = True, submitted = False, res_runId = None,
                            feedbackId = None, localId = Some (local_id a), res_feedback = fb,
                            error = Some msg,
                            message = [55357, 56541] @ js '' Your '' @ show_int stars
                              @ js ''-star rating has been recorded locally (LangSmith submission failed: ''
                              @ msg @ js '').''\<rparr>,
                       svc\<lparr>pendingFeedback := (pendingFeedback svc)(local_id a \<mapsto> fb)\<rparr>))
               else
                 (let svc1 = svc\<lparr>pendingFeedback := (pendingFeedback svc)(local_id a \<mapsto> fb)\<rparr>;
                      reason = (if \<not> langsmithClient svc then js ''LangSmith not initialized''
                                else js ''No run ID available'');
                      stored =
                        \<lparr>success = True, submitted = False, res_runId = None,
                         feedbackId = None, localId = Some (local_id a), res_feedback = fb,
                         error = None,
                         message = [55357, 56541] @ js '' Thank you! Your '' @ show_int stars
                           @ js ''-star rating has been recorded locally ('' @ reason @ js '').''\<rparr>
                  in
                    if \<not> langsmithClient svc then
                      (let svc2 = initialize a svc1 in
                       if langsmithClient svc2 \<and> rid \<noteq> [] then
                         (case collectFeedback world (Suc n) svc2 feedbackData None of
                            (Inr r, svc3) \<Rightarrow> (Inr r, svc3)
                          | (Inl err, svc3) \<Rightarrow> (Inr stored, svc3))
                       else (Inr stored, svc2))
                    else (Inr stored, svc1))))"
  by pat_completeness auto
termination
  by (relation "measure (\<lambda>(world, n, svc, feedbackData, threadManager).
        if langsmithClient svc then 0 else 1)") auto

declare collectFeedback.simps [simp del]

text \<open>
  \<open>collectFeedbackWithContext\<close> runs \<open>collectFeedback\<close> inside a traced function of
  the tracing library, which only opens a run; the run it opens is what
  \<open>runTreeId\<close> of the answers reports.
\<close>

definition collectFeedbackWithContext ::
  "(nat \<Rightarrow> answers) \<Rightarrow> service \<Rightarrow> feedback_data \<Rightarrow> thread_manager option
     \<Rightarrow> (jsstring + feedback_result) \<times> service" where
  "collectFeedbackWithContext world svc feedbackData threadManager =
     collectFeedback world 0 svc feedbackData threadManager"

section \<open>The conversation manager and the command line interface\<close>

text \<open>
  The state of the CLI object with the objects it owns: the conversation manager's
  message list and conversation id, the feedback flags, the feedback service (a module
  singleton), and the file behind the conversation store.
\<close>

record 'tc cli =
  currentMessages :: "'tc message list"
  currentConversationId :: "jsstring option"
  isWaitingForFeedback :: bool
  isWaitingForComment :: bool
  pendingRating :: "int option"
  feedbackService :: service
  conversations :: "'tc conversations_file"

definition new_cli :: "'tc conversations_file \<Rightarrow> 'tc cli" where
  "new_cli file =
     \<lparr>currentMessages = [], currentConversationId = None, isWaitingForFeedback = False,
      isWaitingForComment = False, pendingRating = None, feedbackService = new_service,
      conversations = file\<rparr>"

text \<open>
  \<open>app.processMessageWithThread\<close> hands the input to the workflow engine: the
  invocation returns a response or throws an error with a message, it may rewrite the
  conversation file, and it takes \<open>elapsed\<close> milliseconds to settle.
\<close>

datatype outcome = Returns jsstring | Throws jsstring

record 'tc turn =
  workflow :: outcome
  elapsed :: nat
  workflow_file :: "'tc conversations_file \<Rightarrow> 'tc conversations_file"
  threadManager :: "thread_manager option"
  world :: "nat \<Rightarrow> answers"
  store :: "'tc store_env"

definition saveConversation :: "'tc store_env \<Rightarrow> 'tc cli \<Rightarrow> 'tc cli" where
  "saveConversation e s =
     (if length (currentMessages s) = 0 then s
      else
        (case truthy (currentConversationId s) of
           Some convId \<Rightarrow>
             s\<lparr>conversations :=
                 snd (updateConversation e convId (currentMessages s) (conversations s))\<rparr>
         | None \<Rightarrow>
             (let (newId, file) = addConversation e (currentMessages s) None (conversations s)
              in s\<lparr>currentConversationId := Some newId, conversations := file\<rparr>)))"

definition autoSaveInterval :: nat where
  "autoSaveInterval = 10"

definition autoSaveIfNeeded :: "'tc store_env \<Rightarrow> 'tc cli \<Rightarrow> 'tc cli" where
  "autoSaveIfNeeded e s =
     (if length (currentMessages s) mod autoSaveInterval = 0 then saveConversation e s else s)"

definition addUserMessage :: "'tc message \<Rightarrow> 'tc cli \<Rightarrow> 'tc cli" where
  "addUserMessage m s = s\<lparr>currentMessages := currentMessages s @ [m]\<rparr>"

definition addAIMessage :: "'tc message \<Rightarrow> 'tc cli \<Rightarrow> 'tc cli" where
  "addAIMessage m s = s\<lparr>currentMessages := currentMessages s @ [m]\<rparr>"

definition ensure_initialized :: "answers \<Rightarrow> service \<Rightarrow> service" where
  "ensure_initialized a svc = (if \<not> isInitialized svc then initialize a svc else svc)"

text \<open>
  The body of the \<open>try\<close> block of \<open>processUserInput\<close>: \<open>Inr\<close> is the state when
  the block completes, \<open>Inl\<close> the error message and the state when it throws. In the
  reply to a comment, a \<open>null\<close> rating would count as 0 stars and print as \<open>null\<close>
  (\<open>collectFeedback\<close> throws before, so this is never seen).
\<close>

definition comment_step :: "'tc turn \<Rightarrow> 'tc cli \<Rightarrow> jsstring \<Rightarrow> jsstring \<times> 'tc cli + 'tc cli" where
  "comment_step t s userInput =
     (let svc = ensure_initialized (world t 0) (feedbackService s);
          comment0 = trim userInput;
          (result, svc1) =
            collectFeedbackWithContext (world t) svc
              \<lparr>fd_starRating = pendingRating s, fd_comment = Some comment0,
               fd_key = Some (js ''user_rating''), fd_runId = None\<rparr>
              (threadManager t);
          s1 = s\<lparr>feedbackService := svc1\<rparr>
      in
        case result of
          Inl err \<Rightarrow> Inl (err, s1)
        | Inr res \<Rightarrow>
            (case getStarEmoji (case pendingRating s of None \<Rightarrow> 0 | Some r \<Rightarrow> r) of
               Inl err \<Rightarrow> Inl (err, s1)
             | Inr starEmoji \<Rightarrow>
                 (let m0 = starEmoji @ js '' Thank you for your ''
                             @ (case pendingRating s of
                                  None \<Rightarrow> js ''null'' | Some r \<Rightarrow> show_int r)
                             @ js ''-star rating!'';
                      m1 = (if comment0 \<noteq> [] then
                              m0 @ [10] @ js ''Comment: '' @ [34] @ comment0 @ [34]
                            else m0);
                      responseMessage =
                        (if submitted res then
                           m1 @ [10, 9989] @ js '' Submitted to LangSmith for AI improvement.''
                         else m1 @ [10, 55357, 56541] @ js '' Recorded locally.'');
                      s2 = addAIMessage (AIMessage (ai_default (store t)) responseMessage) s1;
                      s3 = s2\<lparr>isWaitingForComment := False, isWaitingForFeedback := False,
                              pendingRating := None\<rparr>
                  in Inr (autoSaveIfNeeded (store t) s3))))"

definition rating_step :: "'tc turn \<Rightarrow> 'tc cli \<Rightarrow> jsstring \<Rightarrow> jsstring \<times> 'tc cli + 'tc cli" where
  "rating_step t s userInput =
     (let s1 = s\<lparr>feedbackService := ensure_initialized (world t 0) (feedbackService s)\<rparr> in
      case parseUserFeedback userInput of
        Some (rating, c) \<Rightarrow>
          if rating \<ge> 1 \<and> rating \<le> 5 then
            Inr (s1\<lparr>pendingRating := Some rating, isWaitingForFeedback := False,
                    isWaitingForComment := True\<rparr>)
          else Inr s1
      | None \<Rightarrow> Inr s1)"

definition workflow_step :: "'tc turn \<Rightarrow> 'tc cli \<Rightarrow> jsstring \<Rightarrow> jsstring \<times> 'tc cli + 'tc cli" where
  "workflow_step t s userInput =
     (let s1 = s\<lparr>conversations := workflow_file t (conversations s)\<rparr> in
      case workflow t of
        Throws err \<Rightarrow> Inl (err, s1)
      | Returns response \<Rightarrow>
          (let s2 = (if js_includes response (js ''Rate this response'') then
                       s1\<lparr>isWaitingForFeedback := True\<rparr>
                     else s1);
               s3 = addAIMessage (AIMessage (ai_default (store t)) response) s2
           in Inr (autoSaveIfNeeded (store t) s3)))"

text \<open>
  \<open>Application.processInput\<close> races the invocation against a timer of 30 seconds
  (\<open>Promise.race\<close>): an invocation that settles before the timer gives its outcome, and
  otherwise the race rejects with the timeout error while the invocation is left running.
  No function of the repository calls it; \<open>processUserInput\<close> awaits
  \<open>processMessageWithThread\<close>, which invokes the workflow with no timer, as
  \<open>workflow_step\<close> does.
\<close>

definition processInput :: "bool \<Rightarrow> nat \<Rightarrow> outcome \<Rightarrow> outcome" where
  "processInput initialized elapsed_ms invoke =
     (if \<not> initialized then Throws (js ''Application not initialized'')
      else if elapsed_ms < 30000 then invoke
      else Throws (js ''Request timeout (30 seconds)''))"

definition try_block :: "'tc turn \<Rightarrow> 'tc cli \<Rightarrow> jsstring \<Rightarrow> jsstring \<times> 'tc cli + 'tc cli" where
  "try_block t s userInput =
     (if isWaitingForComment s then comment_step t s userInput
      else if isWaitingForFeedback s then rating_step t s userInput
      else workflow_step t s userInput)"

text \<open>\<open>Array.prototype.pop\<close>; it leaves an empty array empty.\<close>

definition pop :: "'a list \<Rightarrow> 'a list" where
  "pop xs = butlast xs"

definition processUserInput :: "'tc turn \<Rightarrow> 'tc cli \<Rightarrow> jsstring \<Rightarrow> 'tc cli" where
  "processUserInput t s userInput =
     (let userMessage = HumanMessage userInput;
          s1 = addUserMessage userMessage s
      in
        case try_block t s1 userInput of
          Inr s2 \<Rightarrow> s2
        | Inl (err, s2) \<Rightarrow> s2\<lparr>currentMessages := pop (currentMessages s2)\<rparr>)"

text \<open>
  One round of \<open>mainLoop\<close>. A special command (\<open>clear\<close>, the thread commands, ...)
  works on the conversation manager and the store only, so it is given by the message
  list, the conversation id and the file it leaves; any other input goes to
  \<open>processUserInput\<close>.
\<close>

datatype 'tc event =
    Command "'tc message list" "jsstring option" "'tc conversations_file"
  | Input "'tc turn" jsstring

fun loop_round :: "'tc cli \<Rightarrow> 'tc event \<Rightarrow> 'tc cli" where
  "loop_round s (Command msgs convId file) =
     s\<lparr>currentMessages := msgs, currentConversationId := convId, conversations := file\<rparr>"
| "loop_round s (Input t userInput) = processUserInput t s userInput"

definition mainLoop :: "'tc cli \<Rightarrow> 'tc event list \<Rightarrow> 'tc cli" where
  "mainLoop s events = foldl loop_round s events"

section \<open>Vocabulary for the properties of the parser\<close>

text \<open>The capture groups a pattern contains.\<close>

fun groups :: "regex \<Rightarrow> nat set" where
  "groups (Group n a) = insert n (groups a)"
| "groups (Opt a) = groups a"
| "groups (Seq a b) = groups a \<union> groups b"
| "groups (Alt a b) = groups a \<union> groups b"
| "groups r = {}"

text \<open>
  The places of a text where a pattern reads the rating: the first character of the text
  (patterns 1, 3 and 4 start with \<open>^(\d)\<close>), and the first character after
  \<open>rating:\<close> or \<open>score:\<close> and white space, wherever in the text the keyword
  stands (pattern 2 has no \<open>^\<close>). \<open>after_keyword kw t\<close> is that character when
  \<open>t\<close> starts with the keyword \<open>kw\<close>, in any mix of cases, and a colon;
  \<open>keyword_places\<close> collects it for both keywords over all positions of the text.
\<close>

definition after_keyword :: "jsstring \<Rightarrow> jsstring \<Rightarrow> jschar list" where
  "after_keyword kw t =
     (if map canonicalize (take (length kw) t) = map canonicalize kw \<and>
         take 1 (drop (length kw) t) = [58]
      then take 1 (dropWhile isWhiteSpace (drop (Suc (length kw)) t))
      else [])"

fun keyword_places :: "jsstring \<Rightarrow> jschar list" where
  "keyword_places [] = []"
| "keyword_places (c # cs) =
     after_keyword (js ''rating'') (c # cs) @ after_keyword (js ''score'') (c # cs) @
     keyword_places cs"

definition rating_places :: "jsstring \<Rightarrow> jschar list" where
  "rating_places t = take 1 t @ keyword_places t"

text \<open>
  The match a backtracking run reports is the first of the list. \<open>leads_to\<close> says where
  the first match of a part of a pattern ends and what it has captured; \<open>finishes\<close> says
  what the first match of the rest of a pattern captures as the rating and as the comment.
\<close>

definition hd_match :: "regex \<Rightarrow> mstate \<Rightarrow> mstate option" where
  "hd_match r st = (case rmatch r st of [] \<Rightarrow> None | x # _ \<Rightarrow> Some x)"

definition leads_to :: "regex \<Rightarrow> mstate \<Rightarrow> jsstring \<Rightarrow> (nat \<rightharpoonup> jsstring) \<Rightarrow> bool" where
  "leads_to r st x c = (\<exists>y. hd_match r st = Some y \<and> rest y = x \<and> caps y = c)"

definition finishes :: "regex \<Rightarrow> mstate \<Rightarrow> jsstring option \<Rightarrow> jsstring \<Rightarrow> bool" where
  "finishes r st v c = (\<exists>y. hd_match r st = Some y \<and> caps y 1 = v \<and> or_empty (caps y 2) = c)"

text \<open>
  The parts of the first pattern: \<open>(?:stars?|\/5)?\<close>, the comment part
  \<open>(?:\s*[-\<endash>]\s*(.+))?$\<close>, and all that follows the digit.
\<close>

definition unit_part :: regex where
  "unit_part = Opt (Alt (Seq (litI ''star'') (Opt (ChrI (of_char CHR ''s'')))) (lit ''/5''))"

definition comment_part :: regex where
  "comment_part =
     Seq (Opt (seqs [Star isWhiteSpace, Class isDash, Star isWhiteSpace, Group 2 (Plus anyChar)])) Eol"

definition after_digit :: regex where
  "after_digit = Seq (Star isSlashOrSpace) (Seq unit_part comment_part)"

text \<open>
  The four accepted forms, in the words of the specification. A rating is written as its
  digit. White space may separate the parts. A comment follows a hyphen or an en dash; it
  is a non-empty text on one line that neither starts nor ends with white space. The word
  after the digit is \<open>star\<close> or \<open>stars\<close>, the keyword before it \<open>rating\<close> or
  \<open>score\<close>, in any mix of cases. \<open>dash_comment t c\<close>: the text \<open>t\<close> is empty and
  there is no comment (\<open>c\<close> is empty), or \<open>t\<close> is a dash followed by the comment
  \<open>c\<close>. \<open>accepted_form r c s\<close>: the text \<open>s\<close> states the rating \<open>r\<close> with the
  comment \<open>c\<close> as a digit alone or with a dash and a comment (forms 3 and 4), as a digit
  followed by \<open>stars\<close> or \<open>/5\<close> (form 1), or as \<open>Rating: N\<close> or \<open>Score: N\<close>
  (form 2), each with an optional dash and comment.
\<close>

definition blank :: "jsstring \<Rightarrow> bool" where
  "blank w = (\<forall>c \<in> set w. isWhiteSpace c)"

definition one_line :: "jsstring \<Rightarrow> bool" where
  "one_line c =
     (c \<noteq> [] \<and> \<not> isWhiteSpace (hd c) \<and> \<not> isWhiteSpace (last c) \<and> (\<forall>x \<in> set c. anyChar x))"

definition rating_digit :: "int \<Rightarrow> jschar" where
  "rating_digit r = nat (48 + r)"

definition star_word :: "jsstring \<Rightarrow> bool" where
  "star_word u =
     (map canonicalize u = map canonicalize (js ''star'') \<or>
      map canonicalize u = map canonicalize (js ''stars''))"

definition keyword :: "jsstring \<Rightarrow> bool" where
  "keyword kw =
     (map canonicalize kw = map canonicalize (js ''rating'') \<or>
      map canonicalize kw = map canonicalize (js ''score''))"

inductive dash_comment :: "jsstring \<Rightarrow> jsstring \<Rightarrow> bool" where
  no_comment: "dash_comment [] []"
| with_comment:
    "blank w2 \<Longrightarrow> isDash d \<Longrightarrow> blank w3 \<Longrightarrow> one_line c \<Longrightarrow> dash_comment (w2 @ d # w3 @ c) c"

inductive accepted_form :: "int \<Rightarrow> jsstring \<Rightarrow> jsstring \<Rightarrow> bool" where
  digit_form: "dash_comment t c \<Longrightarrow> accepted_form r c (rating_digit r # t)"
| unit_form:
    "blank w \<Longrightarrow> star_word u \<or> u = js ''/5'' \<Longrightarrow> dash_comment t c \<Longrightarrow>
     accepted_form r c (rating_digit r # w @ u @ t)"
| keyword_form:
    "keyword kw \<Longrightarrow> blank w \<Longrightarrow> dash_comment t c \<Longrightarrow>
     accepted_form r c (kw @ 58 # w @ rating_digit r # t)"

section \<open>The properties, in the words of the specification\<close>

text \<open>
  Round trip of a conversation: a message is of type human or ai; two messages are the
  same turn when they agree on type and content and, for an AI message that carries
  \<open>tool_calls\<close>, on the tool calls; two conversations are the same when they agree on
  their fields and, message by message, hold the same turns.
\<close>

definition human_or_ai :: "'tc message \<Rightarrow> bool" where
  "human_or_ai m = (getMessageType m = js ''human'' \<or> getMessageType m = js ''ai'')"

definition same_turn :: "'tc message \<Rightarrow> 'tc message \<Rightarrow> bool" where
  "same_turn m' m =
     (getMessageType m' = getMessageType m \<and> message_content m' = message_content m \<and>
      (getMessageType m = js ''ai'' \<and> message_tool_calls m \<noteq> None \<longrightarrow>
         message_tool_calls m' = message_tool_calls m))"

definition same_conversation :: "'tc message conversation \<Rightarrow> 'tc message conversation \<Rightarrow> bool" where
  "same_conversation c' c =
     (cid c' = cid c \<and> title c' = title c \<and> createdAt c' = createdAt c \<and>
      updatedAt c' = updatedAt c \<and> list_all2 same_turn (messages c') (messages c))"

text \<open>
  What a stored conversation becomes when the store is loaded and saved again: its
  messages are deserialized and serialized anew.
\<close>

definition reserialize ::
  "'tc store_env \<Rightarrow> 'tc message_data conversation \<Rightarrow> 'tc message_data conversation" where
  "reserialize e conv =
     map_messages (serializeMessage (isoNow e))
       (map_messages (deserializeMessage (ai_default e)) conv)"



text \<open>
  The feedback flags as a two-step state machine: never both flags, a rating from 1 to 5
  while the comment is awaited, no rating when nothing is awaited.
\<close>

definition flags_consistent :: "'tc cli \<Rightarrow> bool" where
  "flags_consistent s =
     (\<not> (isWaitingForFeedback s \<and> isWaitingForComment s) \<and>
      (isWaitingForComment s \<longrightarrow> (\<exists>r. pendingRating s = Some r \<and> 1 \<le> r \<and> r \<le> 5)) \<and>
      (\<not> isWaitingForFeedback s \<and> \<not> isWaitingForComment s \<longrightarrow> pendingRating s = None))"

text \<open>Example data: an environment of the store, and a stored conversation.\<close>

definition example_env :: "jsstring store_env" where
  "example_env =
     \<lparr>fs_ok = True, dateNow = 1752780277309, isoNow = js ''2025-07-17T19:24:37.309Z'',
      localeNow = js ''7/17/2025, 7:24:37 PM'', ai_default = Some []\<rparr>"

definition example_conversation :: "jsstring message conversation" where
  "example_conversation =
     \<lparr>cid = js ''1752780000000'', title = js ''weather'',
      messages =
        [HumanMessage (js ''weather in Paris?''),
         Instance (js ''ai'') (js ''let me look'') (Some [js ''search'']) None],
      createdAt = js ''2025-07-17T19:20:00.000Z'', updatedAt = js ''2025-07-17T19:20:00.000Z''\<rparr>"

definition example_stored :: "jsstring message_data conversation" where
  "example_stored = map_messages (serializeMessage (js ''2025-07-17T19:20:00.000Z'')) example_conversation"

text \<open>
  Example data for the feedback service: an environment with a reachable remote store, one
  whose remote store rejects the write, a service with a client and one without, and a
  rating of four stars.
\<close>

definition example_answers :: answers where
  "example_answers =
     \<lparr>apiKey = True, runTreeId = None, random16 = (\<lambda>k. k mod 16),
      random36 = js ''k3j2h1g0f'', nowMs = 1752780277309,
      nowIso = js ''2025-07-17T19:24:37.309Z'', createFeedback = Created (Some (js ''fb-1''))\<rparr>"

definition unreachable_answers :: answers where
  "unreachable_answers = example_answers\<lparr>createFeedback := Rejected (js ''fetch failed'')\<rparr>"

definition configured_service :: service where
  "configured_service =
     \<lparr>langsmithClient = True, isInitialized = True, pendingFeedback = Map.empty\<rparr>"

definition local_service :: service where
  "local_service =
     \<lparr>langsmithClient = False, isInitialized = True, pendingFeedback = Map.empty\<rparr>"

definition four_stars :: feedback_data where
  "four_stars =
     \<lparr>fd_starRating = Some 4, fd_comment = Some (js ''could be more detailed''),
      fd_key = None, fd_runId = None\<rparr>"

text \<open>
  Example turns of the CLI: the workflow answers with a rating prompt after a second, it
  throws an error, or it answers after 45 seconds.
\<close>

definition asking_turn :: "jsstring turn" where
  "asking_turn =
     \<lparr>workflow = Returns (js ''Done. Rate this response (1-5)''), elapsed = 1200,
      workflow_file = (\<lambda>f. f), threadManager = Some \<lparr>currentThreadId = None\<rparr>,
      world = (\<lambda>n. example_answers), store = example_env\<rparr>"

definition failing_turn :: "jsstring turn" where
  "failing_turn = asking_turn\<lparr>workflow := Throws (js ''Request timeout (30 seconds)'')\<rparr>"

definition slow_turn :: "jsstring turn" where
  "slow_turn = asking_turn\<lparr>elapsed := 45000\<rparr>"

section \<open>Scores\<close>

text \<open>
  C7: for each of the ratings 1 to 5, \<open>convertStarRatingToScore\<close> gives exactly
  \<open>(r - 1) / 4\<close>: 0, 0.25, 0.5, 0.75 and 1.
\<close>

theorem convertStarRatingToScore_exact:
  "convertStarRatingToScore 1 = 0 \<and> convertStarRatingToScore 2 = 0.25 \<and>
   convertStarRatingToScore 3 = 0.5 \<and> convertStarRatingToScore 4 = 0.75 \<and>
   convertStarRatingToScore 5 = 1"
  by (simp add: convertStarRatingToScore_def)

section \<open>Expiry of the stored login\<close>

text \<open>
  C6: when the auth file holds a \<open>lastLoginTime\<close> that lies more than 24 hours before
  the time of loading, \<open>loadAuthData\<close> returns the default, logged-out structure; when
  it lies at most 24 hours back, \<open>loadAuthData\<close> returns the stored data.
\<close>

theorem loadAuthData_expiry:
  assumes "file = Some d" and "lastLoginTime d = Some (Date t)"
  shows "(now - t > 24 * 60 * 60 * 1000 \<longrightarrow> loadAuthData now file = defaultAuthData) \<and>
         (now - t \<le> 24 * 60 * 60 * 1000 \<longrightarrow> loadAuthData now file = d)"
  using assms by (simp add: loadAuthData_def load_def Let_def)

text \<open>
  A login stored at time 0 with a token and a cookie: loaded 30 hours later it is gone,
  loaded 23 hours later it is returned as stored.
\<close>

theorem loadAuthData_expiry_witness:
  "loadAuthData (30 * 60 * 60 * 1000)
     (Some \<lparr>isLoggedIn = True, cookies = [js ''sid=1''], token = Some (js ''tok''),
            userData = None, lastLoginTime = Some (Date 0)\<rparr>)
   = \<lparr>isLoggedIn = False, cookies = [], token = None, userData = None, lastLoginTime = None\<rparr>
   \<and>
   loadAuthData (23 * 60 * 60 * 1000)
     (Some \<lparr>isLoggedIn = True, cookies = [js ''sid=1''], token = Some (js ''tok''),
            userData = None, lastLoginTime = Some (Date 0)\<rparr>)
   = \<lparr>isLoggedIn = True, cookies = [js ''sid=1''], token = Some (js ''tok''),
      userData = None, lastLoginTime = Some (Date 0)\<rparr>"
  using loadAuthData_expiry
          [of "Some \<lparr>isLoggedIn = True, cookies = [js ''sid=1''], token = Some (js ''tok''),
                      userData = None, lastLoginTime = Some (Date 0)\<rparr>"
              "\<lparr>isLoggedIn = True, cookies = [js ''sid=1''], token = Some (js ''tok''),
                userData = None, lastLoginTime = Some (Date 0)\<rparr>" 0 "30 * 60 * 60 * 1000"]
        loadAuthData_expiry
          [of "Some \<lparr>isLoggedIn = True, cookies = [js ''sid=1''], token = Some (js ''tok''),
                      userData = None, lastLoginTime = Some (Date 0)\<rparr>"
              "\<lparr>isLoggedIn = True, cookies = [js ''sid=1''], token = Some (js ''tok''),
                userData = None, lastLoginTime = Some (Date 0)\<rparr>" 0 "23 * 60 * 60 * 1000"]
  by (simp add: defaultAuthData_def)

section \<open>Round trip through the conversation store\<close>

lemma js_human_ne_ai: "js ''human'' \<noteq> js ''ai''"
  by (simp add: js_def)

lemma roundtrip_message:
  "human_or_ai m \<Longrightarrow> same_turn (deserializeMessage d (serializeMessage now m)) m"
  by (cases m)
     (auto simp: human_or_ai_def same_turn_def deserializeMessage_def serializeMessage_def
        HumanMessage_def AIMessage_def js_human_ne_ai js_human_ne_ai [symmetric]
        split: option.splits if_splits)

lemma roundtrip_messages:
  "\<forall>m \<in> set ms. human_or_ai m \<Longrightarrow>
   list_all2 same_turn (map (deserializeMessage d) (map (serializeMessage now) ms)) ms"
  by (induction ms) (simp_all add: roundtrip_message)

lemma roundtrip_conversation:
  "\<forall>m \<in> set (messages c). human_or_ai m \<Longrightarrow>
   same_conversation
     (map_messages (deserializeMessage d) (map_messages (serializeMessage now) c)) c"
  using roundtrip_messages [of "messages c" d now]
  by (simp add: same_conversation_def map_messages_def)

text \<open>
  C3, as the code has it: when every message of every conversation is of type human or ai
  and the write succeeds, \<open>saveConversations\<close> followed by \<open>loadConversations\<close>
  gives the same conversations, each with the same number of messages in the same order,
  with identical type and content, and with the \<open>tool_calls\<close> an AI message carries
  unchanged.
\<close>

theorem save_load_roundtrip:
  assumes "fs_ok e"
    and "\<forall>c \<in> set convs. \<forall>m \<in> set (messages c). human_or_ai m"
  shows "list_all2 same_conversation
           (loadConversations e' (snd (saveConversations e convs file))) convs"
  using assms(2)
  by (induction convs)
     (simp_all add: loadConversations_def saveConversations_def save_def load_def assms(1)
        roundtrip_conversation)

theorem save_load_roundtrip_witness:
  "fs_ok example_env \<and> list_all human_or_ai (messages example_conversation) \<and>
   list_all2 same_conversation
     (loadConversations example_env (snd (saveConversations example_env [example_conversation] None)))
     [example_conversation]"
proof -
  have h1: "fs_ok example_env"
    by (simp add: example_env_def)
  have h2: "\<forall>c \<in> set [example_conversation]. \<forall>m \<in> set (messages c). human_or_ai m"
    by (simp add: example_conversation_def human_or_ai_def HumanMessage_def)
  have h3: "list_all human_or_ai (messages example_conversation)"
    using h2 by (simp add: list_all_iff)
  show ?thesis
    using h1 h3 save_load_roundtrip [OF h1 h2] by blast
qed

text \<open>
  C3 as it is stated fails: an AI message that carries a \<open>tool_call_id\<close> is written with
  it, but comes back without it, since \<open>deserializeMessage\<close> restores only
  \<open>tool_calls\<close>, and only on an AI message.
\<close>

theorem tool_call_id_not_restored:
  "map (\<lambda>c. map message_tool_call_id (messages c))
     (loadConversations example_env
        (snd (saveConversations example_env
           [\<lparr>cid = js ''1'', title = js ''t'',
             messages = [Instance (js ''ai'') (js ''hello'') (Some [js ''search''])
                           (Some (js ''call_1''))],
             createdAt = js ''2025'', updatedAt = js ''2025''\<rparr>] None)))
   = [[None]]"
  by (simp add: loadConversations_def saveConversations_def save_def load_def example_env_def
      map_messages_def deserializeMessage_def serializeMessage_def js_def truthy_def)

section \<open>Eviction from a full store\<close>

lemma take_full_Cons:
  "length xs = n \<Longrightarrow> 0 < n \<Longrightarrow> take n (x # xs) = x # butlast xs"
  by (cases n) (simp_all add: butlast_conv_take)

text \<open>
  C5: when the store holds \<open>maxHistorySize\<close> (100) conversations and the write succeeds,
  \<open>addConversation\<close> leaves exactly \<open>maxHistorySize\<close> conversations in the file: the
  new conversation at the front, followed by the previous ones in their order without the
  last of them.
\<close>

theorem addConversation_full_store:
  assumes "file = Some old" and "length old = maxHistorySize" and "fs_ok e"
  shows "fst (addConversation e msgs t file) = decimal (dateNow e) \<and>
         (\<exists>new. snd (addConversation e msgs t file) = Some (new # map (reserialize e) (butlast old)) \<and>
            length (new # map (reserialize e) (butlast old)) = maxHistorySize \<and>
            cid new = decimal (dateNow e) \<and>
            messages new = map (serializeMessage (isoNow e)) msgs)"
proof -
  let ?loaded = "map (map_messages (deserializeMessage (ai_default e))) old"
  have pos: "0 < maxHistorySize"
    by (simp add: maxHistorySize_def)
  have len: "length ?loaded = maxHistorySize"
    using assms(2) by simp
  have tk: "take maxHistorySize (c # ?loaded) = c # butlast ?loaded" for c
    using take_full_Cons [OF len pos] .
  have bl: "map (map_messages (serializeMessage (isoNow e))) (butlast ?loaded)
            = map (reserialize e) (butlast old)"
    by (simp add: map_butlast [symmetric] reserialize_def comp_def)
  have n: "length (butlast old) = maxHistorySize - 1"
    using assms(2) by simp
  show ?thesis
    using assms pos
    by (simp add: addConversation_def Let_def loadConversations_def saveConversations_def
        save_def load_def tk bl n) (simp add: map_messages_def)
qed

theorem addConversation_full_store_witness:
  "length (replicate 100 example_stored) = maxHistorySize \<and> fs_ok example_env \<and>
   fst (addConversation example_env [HumanMessage (js ''hi'')] None
          (Some (replicate 100 example_stored))) = decimal (dateNow example_env) \<and>
   (\<exists>new. snd (addConversation example_env [HumanMessage (js ''hi'')] None
                  (Some (replicate 100 example_stored)))
           = Some (new # map (reserialize example_env) (butlast (replicate 100 example_stored))) \<and>
          length (new # map (reserialize example_env) (butlast (replicate 100 example_stored)))
            = maxHistorySize \<and>
          cid new = decimal (dateNow example_env) \<and>
          messages new = map (serializeMessage (isoNow example_env)) [HumanMessage (js ''hi'')])"
proof -
  have h1: "length (replicate 100 example_stored) = maxHistorySize"
    by (simp add: maxHistorySize_def)
  have h2: "fs_ok example_env"
    by (simp add: example_env_def)
  show ?thesis
    using h1 h2 addConversation_full_store [OF refl h1 h2] by blast
qed

lemma reserialize_fields:
  "cid (reserialize e c) = cid c \<and> title (reserialize e c) = title c \<and>
   createdAt (reserialize e c) = createdAt c \<and> updatedAt (reserialize e c) = updatedAt c \<and>
   length (messages (reserialize e c)) = length (messages c)"
  by (simp add: reserialize_def map_messages_def)

section \<open>The run identifier\<close>


section \<open>Submitting feedback\<close>

lemma js_includes_self: "js_includes (t @ post) t"
proof (cases "t @ post")
  case Nil
  then show ?thesis by simp
next
  case (Cons c cs)
  have "take (length t) (t @ post) = t"
    by simp
  then show ?thesis
    unfolding Cons by simp
qed

lemma js_includes_mid: "js_includes (pre @ t @ post) t"
  by (induction pre) (simp_all add: js_includes_self)

lemma decimal_nonempty: "decimal n \<noteq> []"
  by (subst decimal.simps) simp

lemma toString16_nonempty: "toString16 n \<noteq> []"
  by (subst toString16.simps) (simp add: Let_def)

lemma generateUUID_nonempty: "generateUUID rnd \<noteq> []"
  by (simp add: generateUUID_def Let_def toString16_nonempty)

lemma truthy_nonempty: "truthy v = Some s \<Longrightarrow> s \<noteq> []"
  by (auto simp: truthy_def split: option.splits if_splits)

lemma resolveRunId_nonempty: "resolveRunId a fd tm \<noteq> []"
  by (auto simp: resolveRunId_def getRunIdFromContext_def generateUUID_nonempty
      dest: truthy_nonempty split: option.splits)

lemma local_id_nonempty: "local_id a \<noteq> []"
  by (simp add: local_id_def js_def)

lemma js_includes_Cons1: "js_includes (c # b @ t @ post) t"
  using js_includes_mid [of "c # b" t post] by (simp del: js_includes.simps)

lemma js_includes_Cons2: "js_includes (c # d # b @ t @ post) t"
  using js_includes_mid [of "c # d # b" t post] by (simp del: js_includes.simps)

lemmas js_includes_mid2 = js_includes_Cons1 js_includes_Cons2

lemma collectFeedback_client:
  assumes "fd_starRating fd = Some r" and "1 \<le> r" and "r \<le> 5" and "langsmithClient svc"
  shows "\<exists>res svc'. collectFeedback w n svc fd tm = (Inr res, svc') \<and>
           message res \<noteq> [] \<and> js_includes (message res) (show_int r) \<and>
           (case createFeedback (w n) of
              Created fid \<Rightarrow> submitted res \<and> feedbackId res = fid
            | Rejected msg \<Rightarrow> \<not> submitted res \<and> localId res = Some (local_id (w n)))"
proof (cases "createFeedback (w n)")
  case (Created fid)
  show ?thesis
    using assms Created
    by (subst collectFeedback.simps)
       (simp add: Let_def resolveRunId_nonempty js_includes_mid2 del: js_includes.simps)
next
  case (Rejected msg)
  show ?thesis
    using assms Rejected
    by (subst collectFeedback.simps)
       (simp add: Let_def resolveRunId_nonempty js_includes_mid2 del: js_includes.simps)
qed

lemma collectFeedback_no_client:
  assumes "fd_starRating fd = Some r" and "1 \<le> r" and "r \<le> 5" and "\<not> langsmithClient svc"
    and "isInitialized svc \<or> \<not> apiKey (w n)"
  shows "\<exists>res svc'. collectFeedback w n svc fd tm = (Inr res, svc') \<and>
           message res \<noteq> [] \<and> js_includes (message res) (show_int r) \<and>
           \<not> submitted res \<and> localId res = Some (local_id (w n))"
  using assms
  by (subst collectFeedback.simps)
     (auto simp: Let_def initialize_def js_includes_mid2 simp del: js_includes.simps)

lemma collectFeedback_lazy:
  assumes "fd_starRating fd = Some r" and "1 \<le> r" and "r \<le> 5" and "\<not> langsmithClient svc"
    and "\<not> isInitialized svc" and "apiKey (w n)"
  shows "\<exists>res svc'. collectFeedback w n svc fd tm = (Inr res, svc') \<and>
           message res \<noteq> [] \<and> js_includes (message res) (show_int r) \<and>
           (case createFeedback (w (Suc n)) of
              Created fid \<Rightarrow> submitted res \<and> feedbackId res = fid
            | Rejected msg \<Rightarrow> \<not> submitted res \<and> localId res = Some (local_id (w (Suc n))))"
proof -
  let ?svc2 = "initialize (w n) (svc\<lparr>pendingFeedback := (pendingFeedback svc)
        (local_id (w n) \<mapsto>
          \<lparr>starRating = r, score = convertStarRatingToScore r,
             comment = or_empty (fd_comment fd),
             key = (case truthy (fd_key fd) of Some k \<Rightarrow> k | None \<Rightarrow> js ''user_rating''),
             runId = resolveRunId (w n) fd tm, fb_timestamp = nowIso (w n),
             threadId = thread_of tm, sessionId = thread_of tm,
             conversationId = thread_of tm\<rparr>)\<rparr>)"
  have c: "langsmithClient ?svc2"
    using assms by (simp add: initialize_def)
  obtain res svc' where
    r: "collectFeedback w (Suc n) ?svc2 fd None = (Inr res, svc')"
       "message res \<noteq> []" "js_includes (message res) (show_int r)"
       "(case createFeedback (w (Suc n)) of
              Created fid \<Rightarrow> submitted res \<and> feedbackId res = fid
            | Rejected msg \<Rightarrow> \<not> submitted res \<and> localId res = Some (local_id (w (Suc n))))"
    using collectFeedback_client [OF assms(1-3) c, of w "Suc n" None] by blast
  show ?thesis
    using assms c r
    by (subst collectFeedback.simps) (simp add: Let_def resolveRunId_nonempty)
qed

text \<open>
  C4: for a rating from 1 to 5, \<open>collectFeedback\<close> returns a result whose message is
  not empty and contains the star count. With a client and a remote store that answers
  with a record and its non-empty id, the result is submitted and carries that id. With a
  client whose write fails, or with no client and none to be had (the service is
  initialized, or no key is set), the result is not submitted and carries a non-empty
  local id.
\<close>

theorem collectFeedback_outcome:
  assumes "fd_starRating fd = Some r" and "1 \<le> r" and "r \<le> 5"
  shows "\<exists>res svc'. collectFeedback w n svc fd tm = (Inr res, svc') \<and>
           message res \<noteq> [] \<and> js_includes (message res) (show_int r) \<and>
           (langsmithClient svc \<and> createFeedback (w n) = Created (Some fid) \<and> fid \<noteq> [] \<longrightarrow>
              submitted res \<and> feedbackId res = Some fid) \<and>
           (langsmithClient svc \<and> createFeedback (w n) = Rejected msg \<longrightarrow>
              \<not> submitted res \<and> (\<exists>l. localId res = Some l \<and> l \<noteq> [])) \<and>
           (\<not> langsmithClient svc \<and> (isInitialized svc \<or> \<not> apiKey (w n)) \<longrightarrow>
              \<not> submitted res \<and> (\<exists>l. localId res = Some l \<and> l \<noteq> []))"
proof (cases "langsmithClient svc")
  case True
  from collectFeedback_client [of fd r svc w n tm] assms True show ?thesis
    by (auto simp: local_id_nonempty)
next
  case False
  show ?thesis
  proof (cases "isInitialized svc \<or> \<not> apiKey (w n)")
    case True
    from collectFeedback_no_client [of fd r svc w n tm] assms False True show ?thesis
      by (auto simp: local_id_nonempty)
  next
    case f: False
    then have "\<not> isInitialized svc" and "apiKey (w n)"
      by auto
    from collectFeedback_lazy [of fd r svc w n tm] assms False this show ?thesis
      using f by auto
  qed
qed

theorem collectFeedback_outcome_witness:
  "(\<exists>res svc'. collectFeedback (\<lambda>n. example_answers) 0 configured_service four_stars None
                  = (Inr res, svc') \<and>
      message res \<noteq> [] \<and> js_includes (message res) (js ''4'') \<and>
      submitted res \<and> feedbackId res = Some (js ''fb-1'')) \<and>
   (\<exists>res svc'. collectFeedback (\<lambda>n. unreachable_answers) 0 configured_service four_stars None
                  = (Inr res, svc') \<and>
      message res \<noteq> [] \<and> js_includes (message res) (js ''4'') \<and>
      \<not> submitted res \<and> (\<exists>l. localId res = Some l \<and> l \<noteq> [])) \<and>
   (\<exists>res svc'. collectFeedback (\<lambda>n. example_answers) 0 local_service four_stars None
                  = (Inr res, svc') \<and>
      message res \<noteq> [] \<and> js_includes (message res) (js ''4'') \<and>
      \<not> submitted res \<and> (\<exists>l. localId res = Some l \<and> l \<noteq> []))"
proof -
  have r: "fd_starRating four_stars = Some 4" "(1::int) \<le> 4" "(4::int) \<le> 5"
    by (simp_all add: four_stars_def)
  have s4: "show_int 4 = js ''4''"
    by (simp add: show_int_def decimal.simps js_def)
  have a: "langsmithClient configured_service"
    "createFeedback example_answers = Created (Some (js ''fb-1''))" "js ''fb-1'' \<noteq> []"
    by (simp_all add: configured_service_def example_answers_def js_def)
  have b: "createFeedback unreachable_answers = Rejected (js ''fetch failed'')"
    by (simp add: unreachable_answers_def)
  have c: "\<not> langsmithClient local_service" "isInitialized local_service"
    by (simp_all add: local_service_def)
  show ?thesis
    using collectFeedback_outcome [OF r, of "\<lambda>n. example_answers" 0 configured_service None
            "js ''fb-1''" "[]"]
          collectFeedback_outcome [OF r, of "\<lambda>n. unreachable_answers" 0 configured_service None
            "[]" "js ''fetch failed''"]
          collectFeedback_outcome [OF r, of "\<lambda>n. example_answers" 0 local_service None
            "[]" "[]"]
          a b c
    unfolding s4 by (simp del: js_includes.simps)
qed

section \<open>Rolling back the user turn\<close>

lemma saveConversation_keeps:
  "currentMessages (saveConversation e s) = currentMessages s \<and>
   isWaitingForFeedback (saveConversation e s) = isWaitingForFeedback s \<and>
   isWaitingForComment (saveConversation e s) = isWaitingForComment s \<and>
   pendingRating (saveConversation e s) = pendingRating s"
  by (simp add: saveConversation_def Let_def split: option.splits prod.splits)

lemma autoSaveIfNeeded_keeps:
  "currentMessages (autoSaveIfNeeded e s) = currentMessages s \<and>
   isWaitingForFeedback (autoSaveIfNeeded e s) = isWaitingForFeedback s \<and>
   isWaitingForComment (autoSaveIfNeeded e s) = isWaitingForComment s \<and>
   pendingRating (autoSaveIfNeeded e s) = pendingRating s"
  by (simp add: autoSaveIfNeeded_def saveConversation_keeps)

text \<open>
  The catch block: when no feedback is awaited and the workflow invocation throws,
  \<open>processUserInput\<close> leaves the message list of the conversation manager as it was
  before the input; a retry that succeeds then adds the user turn once, followed by the
  answer.
\<close>

lemma workflow_failure_rolls_back:
  assumes "\<not> isWaitingForComment s" and "\<not> isWaitingForFeedback s"
    and "workflow t = Throws err"
  shows "currentMessages (processUserInput t s userInput) = currentMessages s \<and>
         (workflow t' = Returns response \<longrightarrow>
            currentMessages (processUserInput t' (processUserInput t s userInput) userInput)
              = currentMessages s @ [HumanMessage userInput, AIMessage (ai_default (store t')) response])"
  using assms
  by (simp add: processUserInput_def try_block_def workflow_step_def addUserMessage_def
      addAIMessage_def pop_def Let_def autoSaveIfNeeded_keeps)

lemma workflow_failure_rolls_back_example:
  "currentMessages (processUserInput failing_turn (new_cli None) (js ''hello'')) = [] \<and>
   currentMessages
     (processUserInput asking_turn (processUserInput failing_turn (new_cli None) (js ''hello''))
        (js ''hello''))
   = [HumanMessage (js ''hello''), AIMessage (Some []) (js ''Done. Rate this response (1-5)'')]"
proof -
  have h1: "\<not> isWaitingForComment (new_cli None :: jsstring cli)"
    by (simp add: new_cli_def)
  have h2: "\<not> isWaitingForFeedback (new_cli None :: jsstring cli)"
    by (simp add: new_cli_def)
  have h3: "workflow failing_turn = Throws (js ''Request timeout (30 seconds)'')"
    by (simp add: failing_turn_def)
  have h4: "workflow asking_turn = Returns (js ''Done. Rate this response (1-5)'')"
    by (simp add: asking_turn_def)
  have h5: "ai_default (store asking_turn) = Some []"
    by (simp add: asking_turn_def example_env_def)
  have h6: "currentMessages (new_cli None :: jsstring cli) = []"
    by (simp add: new_cli_def)
  show ?thesis
    using workflow_failure_rolls_back [OF h1 h2 h3, of "js ''hello''" asking_turn
        "js ''Done. Rate this response (1-5)''"] h4 h5 h6
    by simp
qed

text \<open>
  An invocation that returns is never cut short: whatever time it takes, the user turn
  stays and the answer is added.
\<close>

lemma workflow_answer_kept:
  assumes "\<not> isWaitingForComment s" and "\<not> isWaitingForFeedback s"
    and "workflow t = Returns response"
  shows "currentMessages (processUserInput t s userInput)
         = currentMessages s @ [HumanMessage userInput, AIMessage (ai_default (store t)) response]"
  using assms
  by (simp add: processUserInput_def try_block_def workflow_step_def addUserMessage_def
      addAIMessage_def Let_def autoSaveIfNeeded_keeps)

text \<open>
  C9 says that a workflow invocation which exceeds the budget of 30 seconds fails and that
  the user message is then removed again. The code removes the user message whenever the
  invocation throws, but no timer runs on the path of \<open>processUserInput\<close>: for an
  invocation that answers after 45 seconds, the race of \<open>processInput\<close> would reject
  with the timeout error, while \<open>processUserInput\<close> waits, keeps the user turn and adds
  the answer.
\<close>

theorem slow_workflow_keeps_turn:
  "elapsed slow_turn = 45000 \<and>
   processInput True (elapsed slow_turn) (workflow slow_turn)
     = Throws (js ''Request timeout (30 seconds)'') \<and>
   currentMessages (processUserInput slow_turn (new_cli None) (js ''hello''))
     = [HumanMessage (js ''hello''), AIMessage (Some []) (js ''Done. Rate this response (1-5)'')]"
proof -
  have h1: "\<not> isWaitingForComment (new_cli None :: jsstring cli)"
    by (simp add: new_cli_def)
  have h2: "\<not> isWaitingForFeedback (new_cli None :: jsstring cli)"
    by (simp add: new_cli_def)
  have h3: "workflow slow_turn = Returns (js ''Done. Rate this response (1-5)'')"
    by (simp add: slow_turn_def asking_turn_def)
  have h4: "ai_default (store slow_turn) = Some []"
    by (simp add: slow_turn_def asking_turn_def example_env_def)
  have h5: "currentMessages (new_cli None :: jsstring cli) = []"
    by (simp add: new_cli_def)
  have h6: "elapsed slow_turn = 45000"
    by (simp add: slow_turn_def)
  show ?thesis
    using workflow_answer_kept [OF h1 h2 h3, of "js ''hello''"] h4 h5 h6
    by (simp add: processInput_def h3)
qed

section \<open>The feedback flags\<close>

lemma flags_try_block:
  assumes "flags_consistent s"
  shows "case try_block t s u of
           Inr s' \<Rightarrow> flags_consistent s'
         | Inl (err, s') \<Rightarrow> flags_consistent s'"
proof (cases "isWaitingForComment s")
  case True
  then show ?thesis
    using assms
    by (auto simp: try_block_def comment_step_def flags_consistent_def Let_def addAIMessage_def
        autoSaveIfNeeded_keeps split: prod.splits sum.splits option.splits)
next
  case False
  show ?thesis
  proof (cases "isWaitingForFeedback s")
    case True
    then show ?thesis
      using assms False
      by (auto simp: try_block_def rating_step_def flags_consistent_def Let_def
          split: option.splits prod.splits)
  next
    case f: False
    then show ?thesis
      using assms False
      by (auto simp: try_block_def workflow_step_def flags_consistent_def Let_def addAIMessage_def
          autoSaveIfNeeded_keeps split: outcome.splits)
  qed
qed

lemma flags_addUserMessage: "flags_consistent (addUserMessage m s) = flags_consistent s"
  by (simp add: flags_consistent_def addUserMessage_def)

lemma flags_processUserInput:
  assumes "flags_consistent s"
  shows "flags_consistent (processUserInput t s u)"
proof -
  have "flags_consistent (addUserMessage (HumanMessage u) s)"
    using assms by (simp add: flags_addUserMessage)
  from flags_try_block [OF this, of t u] show ?thesis
    by (auto simp: processUserInput_def Let_def flags_consistent_def split: sum.splits prod.splits)
qed

lemma flags_round: "flags_consistent s \<Longrightarrow> flags_consistent (loop_round s ev)"
  by (cases ev) (simp_all add: flags_processUserInput, simp add: flags_consistent_def)

lemma flags_foldl: "flags_consistent s \<Longrightarrow> flags_consistent (foldl loop_round s evs)"
  by (induction evs arbitrary: s) (simp_all add: flags_round)

text \<open>
  C10: after any sequence of rounds of the main loop from the initial state, the two flags
  are never both set; while the comment is awaited, \<open>pendingRating\<close> holds an integer
  from 1 to 5; and while nothing is awaited, \<open>pendingRating\<close> is \<open>null\<close>.
\<close>

theorem feedback_flags_consistent: "flags_consistent (mainLoop (new_cli file) events)"
  unfolding mainLoop_def
  by (rule flags_foldl) (simp add: flags_consistent_def new_cli_def)

lemma parse_four: "parseUserFeedback (js ''4'') = Some (4, [])"
  by (simp add: parseUserFeedback_def rated_def parseInt_def or_empty_def trim_def js_def
      isWhiteSpace_def isDigit_def isSlashOrSpace_def match_def pattern1_def lit_def litI_def
      one_def advance_def consumed_def)

lemma asked_state:
  "isWaitingForFeedback (processUserInput asking_turn (new_cli None) (js ''hello'')) \<and>
   \<not> isWaitingForComment (processUserInput asking_turn (new_cli None) (js ''hello''))"
  by (simp add: processUserInput_def try_block_def workflow_step_def addUserMessage_def
      addAIMessage_def new_cli_def asking_turn_def Let_def autoSaveIfNeeded_keeps)
     (simp add: js_def)

lemma rated_state:
  "isWaitingForComment
     (mainLoop (new_cli None) [Input asking_turn (js ''hello''), Input asking_turn (js ''4'')])"
  using asked_state
  by (simp add: mainLoop_def processUserInput_def [of _ _ "js ''4''"] try_block_def
      rating_step_def addUserMessage_def parse_four Let_def)

theorem feedback_flags_consistent_witness:
  "isWaitingForComment
     (mainLoop (new_cli None) [Input asking_turn (js ''hello''), Input asking_turn (js ''4'')]) \<and>
   \<not> isWaitingForFeedback
     (mainLoop (new_cli None) [Input asking_turn (js ''hello''), Input asking_turn (js ''4'')]) \<and>
   (\<exists>r. pendingRating
          (mainLoop (new_cli None) [Input asking_turn (js ''hello''), Input asking_turn (js ''4'')])
        = Some r \<and> 1 \<le> r \<and> r \<le> 5) \<and>
   pendingRating (mainLoop (new_cli None :: jsstring cli) []) = None"
proof -
  have e: "\<not> isWaitingForFeedback (mainLoop (new_cli None :: jsstring cli) []) \<and>
           \<not> isWaitingForComment (mainLoop (new_cli None :: jsstring cli) [])"
    by (simp add: mainLoop_def new_cli_def)
  show ?thesis
    using rated_state e
      feedback_flags_consistent
        [of None "[Input asking_turn (js ''hello''), Input asking_turn (js ''4'')]"]
      feedback_flags_consistent [of "None :: jsstring conversations_file" "[]"]
    unfolding flags_consistent_def by blast
qed

section \<open>What the parser rejects\<close>

lemma star_prefix: "r \<in> set (star p s) \<Longrightarrow> \<exists>w. s = w @ r \<and> (\<forall>c \<in> set w. p c)"
proof (induction s)
  case Nil
  then show ?case by simp
next
  case (Cons c cs)
  show ?case
  proof (cases "r = c # cs")
    case True
    then show ?thesis by (intro exI [of _ "[]"]) simp
  next
    case False
    with Cons.prems have "p c" and "r \<in> set (star p cs)"
      by (auto split: if_splits)
    with Cons.IH obtain w where "cs = w @ r" "\<forall>c \<in> set w. p c"
      by blast
    with \<open>p c\<close> show ?thesis by (intro exI [of _ "c # w"]) simp
  qed
qed

lemma one_result:
  "st' \<in> set (one p st) \<Longrightarrow>
   \<exists>c. rest st = c # rest st' \<and> p c \<and> caps st' = caps st"
  by (cases "rest st") (auto simp: one_def advance_def split: if_splits)

lemma rmatch_caps:
  "st' \<in> set (rmatch r st) \<Longrightarrow> n \<notin> groups r \<Longrightarrow> caps st' n = caps st n"
proof (induction r arbitrary: st st')
  case (Seq a b)
  then obtain st1 where a: "st1 \<in> set (rmatch a st)" and b: "st' \<in> set (rmatch b st1)"
    by auto
  show ?case
    using Seq.IH(1) [OF a] Seq.IH(2) [OF b] Seq.prems(2) by simp
qed (auto simp: advance_def dest!: one_result)

lemma exec_from_result:
  "exec_from r i s = Some g \<Longrightarrow>
   \<exists>k st'. st' \<in> set (rmatch r \<lparr>pos = i + k, rest = drop k s, caps = Map.empty\<rparr>) \<and> g = caps st'"
proof (induction s arbitrary: i)
  case Nil
  then show ?case
    by (auto split: list.splits intro!: exI [of _ 0])
next
  case (Cons c cs)
  show ?case
  proof (cases "rmatch r \<lparr>pos = i, rest = c # cs, caps = Map.empty\<rparr>")
    case Nil
    with Cons.prems have "exec_from r (Suc i) cs = Some g"
      by simp
    from Cons.IH [OF this] obtain k st' where
      "st' \<in> set (rmatch r \<lparr>pos = Suc i + k, rest = drop k cs, caps = Map.empty\<rparr>)" "g = caps st'"
      by blast
    then show ?thesis
      by (intro exI [of _ "Suc k"] exI [of _ st']) simp
  next
    case (Cons st' sts)
    with Cons.prems have "g = caps st'"
      by simp
    with Cons show ?thesis
      by (intro exI [of _ 0] exI [of _ st']) simp
  qed
qed

text \<open>A keyword of a pattern consumes a text that is the keyword up to the case.\<close>

lemma litI_result:
  "st' \<in> set (rmatch (litI k) st) \<Longrightarrow>
   \<exists>x. rest st = x @ rest st' \<and> map canonicalize x = map canonicalize (js k)"
proof (induction k arbitrary: st rule: induct_list012)
  case 1
  then show ?case
    by (auto simp: litI_def js_def split: if_splits)
next
  case (2 c)
  then obtain d where "rest st = d # rest st'" "canonicalize d = canonicalize (of_char c)"
    by (auto simp: litI_def dest!: one_result)
  then show ?case
    by (intro exI [of _ "[d]"]) (simp add: js_def)
next
  case (3 c c' cs)
  from 3(3) obtain st1 where
    a: "st1 \<in> set (one (\<lambda>x. canonicalize x = canonicalize (of_char c)) st)" and
    b: "st' \<in> set (rmatch (litI (c' # cs)) st1)"
    by (auto simp: litI_def)
  from one_result [OF a] obtain d where
    d: "rest st = d # rest st1" "canonicalize d = canonicalize (of_char c)"
    by blast
  from 3(2) [OF b] obtain x where
    "rest st1 = x @ rest st'" "map canonicalize x = map canonicalize (js (c' # cs))"
    by blast
  with d show ?case
    by (intro exI [of _ "d # x"]) (simp add: js_def)
qed

lemma digit_not_space: "isDigit d \<Longrightarrow> \<not> isWhiteSpace d"
  by (auto simp: isDigit_def isWhiteSpace_def)

lemma after_keyword_hit:
  assumes "map canonicalize x = map canonicalize kw" and "\<forall>c \<in> set w. isWhiteSpace c"
    and "isDigit d"
  shows "after_keyword kw (x @ 58 # w @ d # r) = [d]"
proof -
  from assms(1) have "length x = length kw"
    by (rule map_eq_imp_length_eq)
  moreover have "dropWhile isWhiteSpace (w @ d # r) = d # r"
    using assms(2,3) by (simp add: dropWhile_append2 digit_not_space)
  ultimately show ?thesis
    using assms(1) by (simp add: after_keyword_def)
qed

text \<open>
  Every way to match \<open>(\d)\<close> and a rest without a group 1 captures, as group 1, the
  character the match starts at, a digit.
\<close>

lemma group1_result:
  assumes "st' \<in> set (rmatch (Seq (Group 1 (Class isDigit)) b) st)" and "1 \<notin> groups b"
  shows "\<exists>d. caps st' 1 = Some [d] \<and> isDigit d \<and> take 1 (rest st) = [d]"
proof -
  from assms(1) obtain st2 st3 where
    s2: "st2 \<in> set (one isDigit st)" and
    s3: "st3 = st2\<lparr>caps := (caps st2)(1 \<mapsto> consumed st st2)\<rparr>" and
    s4: "st' \<in> set (rmatch b st3)"
    by auto
  from one_result [OF s2] obtain d where d: "rest st = d # rest st2" "isDigit d"
    by blast
  then have "consumed st st2 = [d]"
    by (simp add: consumed_def)
  moreover have "caps st' 1 = caps st3 1"
    using rmatch_caps [OF s4 assms(2)] .
  ultimately show ?thesis
    using s3 d by auto
qed

text \<open>
  Every way to match \<open>(?:rating|score):\s*(\d)\<close> and a rest without a group 1
  captures the digit that follows the keyword, the colon and the white space.
\<close>

lemma keyword_result:
  assumes "st' \<in> set (rmatch (Seq (Alt (litI ''rating'') (litI ''score''))
             (Seq (Chr 58) (Seq (Star isWhiteSpace) (Seq (Group 1 (Class isDigit)) b)))) st)"
    and "1 \<notin> groups b"
  shows "\<exists>d. caps st' 1 = Some [d] \<and> isDigit d \<and>
           (after_keyword (js ''rating'') (rest st) = [d] \<or>
            after_keyword (js ''score'') (rest st) = [d])"
proof -
  from assms(1) obtain st1 st2 st3 where
    s1: "st1 \<in> set (rmatch (litI ''rating'') st) \<or> st1 \<in> set (rmatch (litI ''score'') st)" and
    s2: "st2 \<in> set (one (\<lambda>c. c = 58) st1)" and
    s3: "st3 \<in> advance st2 ` set (star isWhiteSpace (rest st2))" and
    s4: "st' \<in> set (rmatch (Seq (Group 1 (Class isDigit)) b) st3)"
    by auto
  from group1_result [OF s4 assms(2)] obtain d where
    d: "caps st' 1 = Some [d]" "isDigit d" "take 1 (rest st3) = [d]"
    by blast
  then obtain r where r: "rest st3 = d # r"
    by (cases "rest st3") auto
  from s3 obtain w where w: "rest st2 = w @ rest st3" "\<forall>c \<in> set w. isWhiteSpace c"
    by (auto simp: advance_def dest!: star_prefix)
  from one_result [OF s2] have c: "rest st1 = 58 # rest st2"
    by auto
  from s1 obtain x kw where
    x: "rest st = x @ rest st1" "map canonicalize x = map canonicalize (js kw)"
      "kw = ''rating'' \<or> kw = ''score''"
    by (auto dest!: litI_result)
  have "after_keyword (js kw) (rest st) = [d]"
    using after_keyword_hit [OF x(2) w(2) d(2), of r] x(1) c w(1) r by simp
  with d x(3) show ?thesis
    by auto
qed

lemma keyword_places_drop:
  "after_keyword (js ''rating'') (drop k t) = [d] \<or> after_keyword (js ''score'') (drop k t) = [d]
   \<Longrightarrow> d \<in> set (keyword_places t)"
proof (induction t arbitrary: k)
  case Nil
  then show ?case by (simp add: after_keyword_def js_def)
next
  case (Cons c cs)
  then show ?case
    by (cases k) auto
qed

text \<open>A pattern that starts with \<open>^\<close> matches at the start of the text only.\<close>

lemma match_anchored_capture:
  assumes "match t (Seq Bol (Seq (Group 1 (Class isDigit)) b)) = Some g" and "1 \<notin> groups b"
  shows "\<exists>d. g 1 = Some [d] \<and> isDigit d \<and> take 1 t = [d]"
proof -
  from exec_from_result [OF assms(1) [unfolded match_def]] obtain k st' where
    a: "st' \<in> set (rmatch (Seq Bol (Seq (Group 1 (Class isDigit)) b))
          \<lparr>pos = 0 + k, rest = drop k t, caps = Map.empty\<rparr>)" and g: "g = caps st'"
    by blast
  then have k: "k = 0"
    by (auto split: if_splits)
  with a have "st' \<in> set (rmatch (Seq (Group 1 (Class isDigit)) b)
          \<lparr>pos = 0, rest = t, caps = Map.empty\<rparr>)"
    by simp
  from group1_result [OF this assms(2)] g show ?thesis
    by simp
qed

lemma match_pattern2_capture:
  assumes "match t pattern2 = Some g"
  shows "\<exists>d. g 1 = Some [d] \<and> isDigit d \<and> d \<in> set (keyword_places t)"
proof -
  from exec_from_result [OF assms [unfolded match_def]] obtain k st' where
    a: "st' \<in> set (rmatch pattern2 \<lparr>pos = 0 + k, rest = drop k t, caps = Map.empty\<rparr>)"
    and g: "g = caps st'"
    by blast
  from a have "st' \<in> set (rmatch (Seq (Alt (litI ''rating'') (litI ''score''))
             (Seq (Chr 58) (Seq (Star isWhiteSpace) (Seq (Group 1 (Class isDigit))
               (Seq (Opt (seqs [Star isWhiteSpace, Class isDash, Star isWhiteSpace,
                  Group 2 (Plus anyChar)])) Eol)))))
              \<lparr>pos = 0 + k, rest = drop k t, caps = Map.empty\<rparr>)"
    by (simp add: pattern2_def)
  from keyword_result [OF this] obtain d where
    "caps st' 1 = Some [d]" "isDigit d"
    "after_keyword (js ''rating'') (drop k t) = [d] \<or> after_keyword (js ''score'') (drop k t) = [d]"
    by auto
  with g keyword_places_drop [of k t d] show ?thesis
    by auto
qed

text \<open>
  A block of the parser returns the value of the digit its pattern captured, and only when
  it is from 1 to 5.
\<close>

lemma rated_capture:
  assumes "rated (Some g) = Some (rating, c)" and "g 1 = Some [d]" and "isDigit d"
  shows "1 \<le> rating \<and> rating \<le> 5 \<and> d = rating_digit rating"
proof -
  from assms(2,3) have "parseInt (g 1) = Some (int d - 48)"
    by (simp add: parseInt_def)
  with assms(1) have "rating = int d - 48" "1 \<le> rating" "rating \<le> 5"
    by (auto simp: rated_def split: if_splits)
  with assms(3) show ?thesis
    by (simp add: rating_digit_def isDigit_def)
qed

lemma rated_anchored:
  assumes "rated (match t (Seq Bol (Seq (Group 1 (Class isDigit)) b))) = Some (rating, c)"
    and "1 \<notin> groups b"
  shows "1 \<le> rating \<and> rating \<le> 5 \<and> rating_digit rating \<in> set (rating_places t)"
proof -
  from assms(1) obtain g where g: "match t (Seq Bol (Seq (Group 1 (Class isDigit)) b)) = Some g"
    by (auto simp: rated_def split: option.splits)
  from match_anchored_capture [OF g assms(2)] obtain d where
    d: "g 1 = Some [d]" "isDigit d" "take 1 t = [d]"
    by blast
  from rated_capture [OF assms(1) [unfolded g] d(1,2)] d(3) show ?thesis
    by (simp add: rating_places_def)
qed

lemma rated_pattern2:
  assumes "rated (match t pattern2) = Some (rating, c)"
  shows "1 \<le> rating \<and> rating \<le> 5 \<and> rating_digit rating \<in> set (rating_places t)"
proof -
  from assms obtain g where g: "match t pattern2 = Some g"
    by (auto simp: rated_def split: option.splits)
  from match_pattern2_capture [OF g] obtain d where
    d: "g 1 = Some [d]" "isDigit d" "d \<in> set (keyword_places t)"
    by blast
  from rated_capture [OF assms [unfolded g] d(1,2)] d(3) show ?thesis
    by (simp add: rating_places_def)
qed

text \<open>
  A rating the parser returns is from 1 to 5 and is the digit that stands at a rating place
  of the trimmed input: no value is clamped, rounded or guessed.
\<close>

lemma parseUserFeedback_rating:
  assumes "parseUserFeedback s = Some (rating, c)"
  shows "1 \<le> rating \<and> rating \<le> 5 \<and> rating_digit rating \<in> set (rating_places (trim s))"
proof -
  from assms consider
      "rated (match (trim s) pattern1) = Some (rating, c)"
    | "rated (match (trim s) pattern2) = Some (rating, c)"
    | "rated (match (trim s) pattern3) = Some (rating, c)"
    | "rated (match (trim s) pattern4) = Some (rating, c)"
    by (auto simp: parseUserFeedback_def Let_def split: option.splits)
  then show ?thesis
  proof cases
    case 1
    then show ?thesis
      by (intro rated_anchored [where b = "seqs [Star isSlashOrSpace,
           Opt (Alt (Seq (litI ''star'') (Opt (ChrI (of_char CHR ''s'')))) (lit ''/5'')),
           Opt (seqs [Star isWhiteSpace, Class isDash, Star isWhiteSpace, Group 2 (Plus anyChar)]),
           Eol]"]) (simp_all add: pattern1_def lit_def litI_def)
  next
    case 2
    then show ?thesis by (rule rated_pattern2)
  next
    case 3
    then show ?thesis
      by (intro rated_anchored [where b = "seqs [Star isWhiteSpace, Class isDash, Star isWhiteSpace,
           Group 2 (Plus anyChar), Eol]"]) (simp_all add: pattern3_def)
  next
    case 4
    then show ?thesis
      by (intro rated_anchored [where b = Eol]) (simp_all add: pattern4_def)
  qed
qed

lemma set_trim: "set (trim s) \<subseteq> set s"
proof -
  have "set (dropWhile isWhiteSpace (rev (dropWhile isWhiteSpace s)))
          \<subseteq> set (rev (dropWhile isWhiteSpace s))"
    by (rule set_dropWhileD [THEN subsetI])
  also have "\<dots> \<subseteq> set s"
    by (auto dest: set_dropWhileD)
  finally show ?thesis
    by (simp add: trim_def)
qed

lemma keyword_places_subset: "set (keyword_places t) \<subseteq> set t"
proof (induction t)
  case Nil
  then show ?case by simp
next
  case (Cons c cs)
  have "set (after_keyword kw (c # cs)) \<subseteq> set (c # cs)" for kw
    by (auto simp: after_keyword_def dest!: in_set_takeD set_dropWhileD in_set_dropD)
  with Cons show ?case
    by auto
qed

lemma rating_places_subset: "set (rating_places t) \<subseteq> set t"
  using keyword_places_subset [of t] by (auto simp: rating_places_def dest: in_set_takeD)

text \<open>
  The rating places are characters of the input, so an input in which no digit from 1 to 5
  occurs at all (no digit, or only digits outside 1 to 5) is rejected.
\<close>

lemma parseUserFeedback_no_rating_digit:
  assumes "\<forall>c \<in> set userInput. \<not> (49 \<le> c \<and> c \<le> 53)"
  shows "parseUserFeedback userInput = None"
proof (cases "parseUserFeedback userInput")
  case None
  then show ?thesis .
next
  case (Some res)
  obtain rating c where "res = (rating, c)"
    by (cases res)
  with Some parseUserFeedback_rating [of userInput rating c]
  have "1 \<le> rating" "rating \<le> 5" "rating_digit rating \<in> set (rating_places (trim userInput))"
    by auto
  moreover have "set (rating_places (trim userInput)) \<subseteq> set userInput"
    using rating_places_subset [of "trim userInput"] set_trim [of userInput] by blast
  ultimately show ?thesis
    using assms by (force simp: rating_digit_def)
qed




section \<open>What the parser accepts\<close>

lemma hd_match_Seq:
  "hd_match a st = Some x \<Longrightarrow> hd_match b x = Some y \<Longrightarrow> hd_match (Seq a b) st = Some y"
  by (auto simp: hd_match_def split: list.splits)

lemma hd_match_Seq_retry:
  "rmatch a st = x1 # x2 # xs \<Longrightarrow> rmatch b x1 = [] \<Longrightarrow> hd_match b x2 = Some y \<Longrightarrow>
   hd_match (Seq a b) st = Some y"
  by (auto simp: hd_match_def split: list.splits)

lemma hd_match_Seq_none: "rmatch a st = [] \<Longrightarrow> rmatch (Seq a b) st = []"
  by simp

lemma hd_match_Opt_skip: "rmatch a st = [] \<Longrightarrow> hd_match (Opt a) st = Some st"
  by (simp add: hd_match_def)

lemma hd_match_Opt_take: "hd_match a st = Some x \<Longrightarrow> hd_match (Opt a) st = Some x"
  by (auto simp: hd_match_def split: list.splits)

lemma hd_match_Alt_left: "hd_match a st = Some x \<Longrightarrow> hd_match (Alt a b) st = Some x"
  by (auto simp: hd_match_def split: list.splits)

lemma hd_match_Alt_right:
  "rmatch a st = [] \<Longrightarrow> hd_match b st = Some x \<Longrightarrow> hd_match (Alt a b) st = Some x"
  by (auto simp: hd_match_def split: list.splits)

lemma hd_match_Group:
  "hd_match a st = Some x \<Longrightarrow>
   hd_match (Group n a) st = Some (x\<lparr>caps := (caps x)(n \<mapsto> consumed st x)\<rparr>)"
  by (auto simp: hd_match_def split: list.splits)

lemma advance_simps [simp]:
  "rest (advance st r) = r" "caps (advance st r) = caps st"
  "pos (advance st r) = pos st + (length (rest st) - length r)"
  by (simp_all add: advance_def)

lemma one_hit: "rest st = c # cs \<Longrightarrow> p c \<Longrightarrow> one p st = [advance st cs]"
  by (simp add: one_def)

lemma one_miss: "rest st = [] \<or> \<not> p (hd (rest st)) \<Longrightarrow> one p st = []"
  by (cases "rest st") (auto simp: one_def)

text \<open>A greedy star over a run of matching characters, up to the first that does not match.\<close>

lemma star_run:
  "\<forall>c \<in> set w. p c \<Longrightarrow> x = [] \<or> \<not> p (hd x) \<Longrightarrow> \<exists>more. star p (w @ x) = x # more"
proof (induction w)
  case Nil
  then show ?case by (cases x) auto
next
  case (Cons c w)
  then obtain more where "star p (w @ x) = x # more"
    by auto
  with Cons.prems show ?case
    by simp
qed

lemma star_run2:
  "\<forall>c \<in> set w. p c \<Longrightarrow> p a \<Longrightarrow> x = [] \<or> \<not> p (hd x) \<Longrightarrow>
   \<exists>more. star p (w @ a # x) = x # (a # x) # more"
proof (induction w)
  case Nil
  then show ?case by (cases x) auto
next
  case (Cons c w)
  then obtain more where "star p (w @ a # x) = x # (a # x) # more"
    by auto
  with Cons.prems show ?case
    by simp
qed

lemma hd_match_Star:
  assumes "rest st = w @ x" and "\<forall>c \<in> set w. p c" and "x = [] \<or> \<not> p (hd x)"
  shows "hd_match (Star p) st = Some (advance st x)"
  using star_run [OF assms(2,3)] assms(1) by (auto simp: hd_match_def)

lemma hd_match_Plus:
  assumes "rest st = c # w" and "p c" and "\<forall>c \<in> set w. p c"
  shows "hd_match (Plus p) st = Some (advance (advance st w) [])"
  using star_run [OF assms(3), of "[]"] assms(1,2)
  by (auto simp: hd_match_def one_def)

lemma hd_match_Class:
  "rest st = c # cs \<Longrightarrow> p c \<Longrightarrow> hd_match (Class p) st = Some (advance st cs)"
  by (simp add: hd_match_def one_def)

lemma exec_from_hd:
  "hd_match r \<lparr>pos = i, rest = c # cs, caps = Map.empty\<rparr> = Some st \<Longrightarrow>
   exec_from r i (c # cs) = Some (caps st)"
  by (auto simp: hd_match_def split: list.splits)

lemma exec_from_Bol: "0 < i \<Longrightarrow> exec_from (Seq Bol r) i s = None"
  by (induction s arbitrary: i) simp_all

lemma match_anchored_miss:
  "rmatch (Seq Bol r) \<lparr>pos = 0, rest = s, caps = Map.empty\<rparr> = [] \<Longrightarrow> match s (Seq Bol r) = None"
  by (cases s) (simp_all add: match_def exec_from_Bol)

lemma leads_Seq:
  assumes "leads_to a st x c" and "\<And>y. rest y = x \<Longrightarrow> caps y = c \<Longrightarrow> leads_to b y x' c'"
  shows "leads_to (Seq a b) st x' c'"
proof -
  from assms(1) obtain y where y: "hd_match a st = Some y" "rest y = x" "caps y = c"
    unfolding leads_to_def by blast
  from assms(2) [OF y(2,3)] obtain z where "hd_match b y = Some z" "rest z = x'" "caps z = c'"
    unfolding leads_to_def by blast
  with hd_match_Seq [OF y(1) this(1)] show ?thesis
    unfolding leads_to_def by blast
qed

lemma leads_Star:
  "rest st = w @ x \<Longrightarrow> \<forall>c \<in> set w. p c \<Longrightarrow> x = [] \<or> \<not> p (hd x) \<Longrightarrow>
   leads_to (Star p) st x (caps st)"
  unfolding leads_to_def using hd_match_Star [of st w x p] by simp

lemma leads_Star_retry:
  assumes "rest st = w @ a # x" and "\<forall>c \<in> set w. p c" and "p a" and "x = [] \<or> \<not> p (hd x)"
    and "\<And>y. rest y = x \<Longrightarrow> rmatch b y = []"
    and "\<And>y. rest y = a # x \<Longrightarrow> caps y = caps st \<Longrightarrow> leads_to b y x' c'"
  shows "leads_to (Seq (Star p) b) st x' c'"
proof -
  from star_run2 [OF assms(2,3,4)] obtain more where
    "star p (w @ a # x) = x # (a # x) # more"
    by blast
  then have m: "rmatch (Star p) st = advance st x # advance st (a # x) # map (advance st) more"
    using assms(1) by simp
  have "rmatch b (advance st x) = []"
    by (rule assms(5)) simp
  moreover from assms(6) [of "advance st (a # x)"] obtain z where
    "hd_match b (advance st (a # x)) = Some z" "rest z = x'" "caps z = c'"
    unfolding leads_to_def by auto
  ultimately show ?thesis
    using hd_match_Seq_retry [OF m] unfolding leads_to_def by blast
qed

lemma leads_Class: "rest st = c # cs \<Longrightarrow> p c \<Longrightarrow> leads_to (Class p) st cs (caps st)"
  by (simp add: leads_to_def hd_match_def one_def)

lemma leads_Chr: "rest st = c # cs \<Longrightarrow> c = a \<Longrightarrow> leads_to (Chr a) st cs (caps st)"
  by (simp add: leads_to_def hd_match_def one_def)

lemma leads_ChrI:
  "rest st = c # cs \<Longrightarrow> canonicalize c = canonicalize a \<Longrightarrow> leads_to (ChrI a) st cs (caps st)"
  by (simp add: leads_to_def hd_match_def one_def)

lemma leads_Plus:
  "rest st = c # w \<Longrightarrow> p c \<Longrightarrow> \<forall>c \<in> set w. p c \<Longrightarrow> leads_to (Plus p) st [] (caps st)"
  unfolding leads_to_def using hd_match_Plus [of st c w p] by simp

lemma leads_Group:
  assumes "leads_to a st x c"
  shows "leads_to (Group n a) st x (c(n \<mapsto> take (length (rest st) - length x) (rest st)))"
proof -
  from assms obtain y where y: "hd_match a st = Some y" "rest y = x" "caps y = c"
    unfolding leads_to_def by blast
  from hd_match_Group [OF y(1), of n] y(2,3) show ?thesis
    unfolding leads_to_def by (simp add: consumed_def)
qed

lemma leads_Opt_skip: "rmatch a st = [] \<Longrightarrow> leads_to (Opt a) st (rest st) (caps st)"
  by (simp add: leads_to_def hd_match_def)

lemma leads_Opt_take: "leads_to a st x c \<Longrightarrow> leads_to (Opt a) st x c"
  unfolding leads_to_def using hd_match_Opt_take by blast

lemma leads_Alt_left: "leads_to a st x c \<Longrightarrow> leads_to (Alt a b) st x c"
  unfolding leads_to_def using hd_match_Alt_left by blast

lemma leads_Alt_right: "rmatch a st = [] \<Longrightarrow> leads_to b st x c \<Longrightarrow> leads_to (Alt a b) st x c"
  unfolding leads_to_def using hd_match_Alt_right by blast

lemma leads_Eol: "rest st = [] \<Longrightarrow> leads_to Eol st [] (caps st)"
  by (simp add: leads_to_def hd_match_def)

lemma leads_Bol: "pos st = 0 \<Longrightarrow> leads_to Bol st (rest st) (caps st)"
  by (simp add: leads_to_def hd_match_def)

lemma dash_not_space: "isDash d \<Longrightarrow> \<not> isWhiteSpace d"
  by (auto simp: isDash_def isWhiteSpace_def)

lemma comment_part_end:
  assumes "rest st = []"
  shows "leads_to comment_part st [] (caps st)"
proof -
  have 1: "rmatch (seqs [Star isWhiteSpace, Class isDash, Star isWhiteSpace, Group 2 (Plus anyChar)]) st
           = []"
    using assms by (simp add: one_def)
  have 2: "leads_to Eol y [] (caps st)" if "rest y = rest st" "caps y = caps st" for y
    using leads_Eol [of y] that assms by simp
  show ?thesis
    unfolding comment_part_def by (rule leads_Seq [OF leads_Opt_skip [OF 1] 2])
qed

lemma comment_part_comment:
  assumes "rest st = w2 @ d # w3 @ c" and "blank w2" and "isDash d" and "blank w3"
    and "one_line c"
  shows "leads_to comment_part st [] ((caps st)(2 \<mapsto> c))"
proof -
  from assms(5) obtain c0 cs where c: "c = c0 # cs" "\<not> isWhiteSpace c0" "anyChar c0"
    "\<forall>x \<in> set cs. anyChar x"
    by (cases c) (auto simp: one_line_def)
  have 1: "leads_to (Star isWhiteSpace) st (d # w3 @ c) (caps st)"
    using assms(1,2,3) by (intro leads_Star [of st w2]) (auto simp: blank_def dash_not_space)
  have 2: "leads_to (Class isDash) y (w3 @ c) (caps st)"
    if "rest y = d # w3 @ c" "caps y = caps st" for y
    using leads_Class [of y d "w3 @ c" isDash] that assms(3) by simp
  have 3: "leads_to (Star isWhiteSpace) y c (caps st)"
    if "rest y = w3 @ c" "caps y = caps st" for y
    using leads_Star [of y w3 c isWhiteSpace] that assms(4) c by (simp add: blank_def)
  have 4: "leads_to (Group 2 (Plus anyChar)) y [] ((caps st)(2 \<mapsto> c))"
    if "rest y = c" "caps y = caps st" for y
    using leads_Group [OF leads_Plus [of y c0 cs anyChar], of 2] that c by simp
  have 5: "leads_to Eol y [] ((caps st)(2 \<mapsto> c))"
    if "rest y = []" "caps y = (caps st)(2 \<mapsto> c)" for y
    using leads_Eol [of y] that by simp
  show ?thesis
    unfolding comment_part_def seqs.simps
    by (rule leads_Seq [OF leads_Opt_take 5])
       (rule leads_Seq [OF 1], rule leads_Seq [OF 2], assumption+,
        rule leads_Seq [OF 3], assumption+, rule 4, assumption+)
qed

lemma leads_litI:
  "s \<noteq> [] \<Longrightarrow> map canonicalize u = map canonicalize (js s) \<Longrightarrow> rest st = u @ x \<Longrightarrow>
   leads_to (litI s) st x (caps st)"
proof (induction s arbitrary: u st)
  case Nil
  then show ?case by simp
next
  case (Cons a s)
  from Cons.prems(2) obtain k u' where u: "u = k # u'"
    "canonicalize k = canonicalize (of_char a)" "map canonicalize u' = map canonicalize (js s)"
    by (auto simp: js_def map_eq_Cons_conv)
  have 1: "leads_to (ChrI (of_char a)) st (u' @ x) (caps st)"
    using leads_ChrI [of st k "u' @ x" "of_char a"] u Cons.prems(3) by simp
  show ?case
  proof (cases s)
    case Nil
    with u have "u' = []"
      by (simp add: js_def)
    with 1 Nil show ?thesis
      by (simp add: litI_def)
  next
    case (Cons b s')
    have 2: "leads_to (litI s) y x (caps st)" if "rest y = u' @ x" "caps y = caps st" for y
      using Cons.IH [of u' y] that u(3) Cons by simp
    have "litI (a # s) = Seq (ChrI (of_char a)) (litI s)"
      using Cons by (simp add: litI_def)
    then show ?thesis
      using leads_Seq [OF 1 2] by simp
  qed
qed

lemma fails_litI:
  "s \<noteq> [] \<Longrightarrow> rest st = [] \<or> canonicalize (hd (rest st)) \<noteq> canonicalize (of_char (hd s)) \<Longrightarrow>
   rmatch (litI s) st = []"
  by (cases s; cases "tl s"; cases "rest st") (auto simp: litI_def one_def)

lemma leads_lit:
  "s \<noteq> [] \<Longrightarrow> rest st = js s @ x \<Longrightarrow> leads_to (lit s) st x (caps st)"
proof (induction s arbitrary: st)
  case Nil
  then show ?case by simp
next
  case (Cons a s)
  have 1: "leads_to (Chr (of_char a)) st (js s @ x) (caps st)"
    using leads_Chr [of st "of_char a" "js s @ x" "of_char a"] Cons.prems(2) by (simp add: js_def)
  show ?case
  proof (cases s)
    case Nil
    with 1 show ?thesis
      by (simp add: lit_def js_def)
  next
    case (Cons b s')
    have 2: "leads_to (lit s) y x (caps st)" if "rest y = js s @ x" "caps y = caps st" for y
      using Cons.IH [of y] that Cons by simp
    have "lit (a # s) = Seq (Chr (of_char a)) (lit s)"
      using Cons by (simp add: lit_def)
    then show ?thesis
      using leads_Seq [OF 1 2] by simp
  qed
qed

lemma fails_lit:
  "s \<noteq> [] \<Longrightarrow> rest st = [] \<or> hd (rest st) \<noteq> of_char (hd s) \<Longrightarrow> rmatch (lit s) st = []"
  by (cases s; cases "tl s"; cases "rest st") (auto simp: lit_def one_def)

lemma finishes_Seq:
  assumes "leads_to a st x g" and "\<And>y. rest y = x \<Longrightarrow> caps y = g \<Longrightarrow> finishes b y v c"
  shows "finishes (Seq a b) st v c"
proof -
  from assms(1) obtain y where y: "hd_match a st = Some y" "rest y = x" "caps y = g"
    unfolding leads_to_def by blast
  from assms(2) [OF y(2,3)] obtain z where "hd_match b y = Some z" "caps z 1 = v"
    "or_empty (caps z 2) = c"
    unfolding finishes_def by blast
  with hd_match_Seq [OF y(1) this(1)] show ?thesis
    unfolding finishes_def by blast
qed

lemma finishes_Star_retry:
  assumes "rest st = w @ a # x" and "\<forall>c \<in> set w. p c" and "p a" and "x = [] \<or> \<not> p (hd x)"
    and "\<And>y. rest y = x \<Longrightarrow> rmatch b y = []"
    and "\<And>y. rest y = a # x \<Longrightarrow> caps y = caps st \<Longrightarrow> finishes b y v c"
  shows "finishes (Seq (Star p) b) st v c"
proof -
  from star_run2 [OF assms(2,3,4)] obtain more where
    "star p (w @ a # x) = x # (a # x) # more"
    by blast
  then have m: "rmatch (Star p) st = advance st x # advance st (a # x) # map (advance st) more"
    using assms(1) by simp
  have "rmatch b (advance st x) = []"
    by (rule assms(5)) simp
  moreover from assms(6) [of "advance st (a # x)"] obtain z where
    "hd_match b (advance st (a # x)) = Some z" "caps z 1 = v" "or_empty (caps z 2) = c"
    unfolding finishes_def by auto
  ultimately show ?thesis
    using hd_match_Seq_retry [OF m] unfolding finishes_def by blast
qed

lemma finishes_comment_part:
  assumes "dash_comment t c" and "rest st = t" and "caps st 2 = None"
  shows "finishes comment_part st (caps st 1) c"
  using assms
proof (cases rule: dash_comment.cases)
  case no_comment
  with comment_part_end [of st] assms show ?thesis
    by (auto simp: leads_to_def finishes_def or_empty_def)
next
  case (with_comment w2 d w3)
  with comment_part_comment [of st w2 d w3 c] assms show ?thesis
    by (auto simp: leads_to_def finishes_def or_empty_def)
qed

lemma tail_hd: "dash_comment t c \<Longrightarrow> t = [] \<or> isWhiteSpace (hd t) \<or> isDash (hd t)"
  by (erule dash_comment.cases) (auto simp: blank_def hd_append)

lemma not_s: "isWhiteSpace k \<or> isDash k \<Longrightarrow> canonicalize k \<noteq> 83 \<and> k \<noteq> 47"
  by (auto simp: isWhiteSpace_def isDash_def canonicalize_def)

lemma canon_s: "canonicalize 115 = 83"
  by (simp add: canonicalize_def)

lemma finishes_then_comment:
  assumes "leads_to a st t (caps st)" and "dash_comment t c" and "caps st 2 = None"
  shows "finishes (Seq a comment_part) st (caps st 1) c"
proof -
  have "finishes comment_part y (caps st 1) c" if "rest y = t" "caps y = caps st" for y
    using finishes_comment_part [OF assms(2), of y] that assms(3) by simp
  with assms(1) show ?thesis
    by (rule finishes_Seq)
qed

lemma star_first: "rest st = [] \<or> canonicalize (hd (rest st)) \<noteq> 83 \<Longrightarrow> rmatch (litI ''star'') st = []"
  by (rule fails_litI) (auto simp: canon_s)

lemma finishes_unit_none:
  assumes "dash_comment t c" and "rest st = t" and "caps st 2 = None"
  shows "finishes (Seq unit_part comment_part) st (caps st 1) c"
proof -
  from tail_hd [OF assms(1)] assms(2) have h: "rest st = [] \<or> (canonicalize (hd (rest st)) \<noteq> 83 \<and> hd (rest st) \<noteq> 47)"
    using not_s by auto
  have "rmatch (litI ''star'') st = []"
    using h by (intro star_first) auto
  moreover have "rmatch (lit ''/5'') st = []"
    using h by (intro fails_lit) auto
  ultimately have "rmatch (Alt (Seq (litI ''star'') (Opt (ChrI (of_char CHR ''s'')))) (lit ''/5'')) st = []"
    by simp
  from leads_Opt_skip [OF this] have 1: "leads_to unit_part st t (caps st)"
    using assms(2) by (simp add: unit_part_def)
  show ?thesis
    by (rule finishes_then_comment [OF 1 assms(1,3)])
qed

lemma star_word_cases:
  assumes "star_word u"
  obtains (star) "map canonicalize u = map canonicalize (js ''star'')"
  | (stars) u4 k where "u = u4 @ [k]" "map canonicalize u4 = map canonicalize (js ''star'')"
      "canonicalize k = 83"
proof (cases "map canonicalize u = map canonicalize (js ''star'')")
  case True
  then show ?thesis by (rule star)
next
  case False
  with assms have "map canonicalize u = map canonicalize (js ''stars'')"
    by (simp add: star_word_def)
  then have "map canonicalize u = map canonicalize (js ''star'') @ [83]"
    by (simp add: js_def canon_s)
  then obtain u4 k5 where "u = u4 @ k5" "map canonicalize u4 = map canonicalize (js ''star'')"
    "map canonicalize k5 = [83]"
    by (auto simp: map_eq_append_conv)
  then show ?thesis
    by (auto intro: stars)
qed

lemma star_word_hd: "star_word u \<Longrightarrow> u \<noteq> [] \<and> canonicalize (hd u) = 83"
  by (auto simp: star_word_def js_def canon_s map_eq_Cons_conv)

lemma finishes_unit_star:
  assumes "star_word u" and "dash_comment t c" and "rest st = u @ t" and "caps st 2 = None"
  shows "finishes (Seq unit_part comment_part) st (caps st 1) c"
proof -
  from tail_hd [OF assms(2)] have t: "t = [] \<or> canonicalize (hd t) \<noteq> 83"
    using not_s by auto
  have "leads_to (Seq (litI ''star'') (Opt (ChrI 115))) st t (caps st)"
    using assms(1)
  proof (cases rule: star_word_cases)
    case star
    have 1: "leads_to (litI ''star'') st t (caps st)"
      using leads_litI [of "''star''" u st t] star assms(3) by simp
    have 2: "leads_to (Opt (ChrI 115)) y t (caps st)" if "rest y = t" "caps y = caps st" for y
    proof -
      have "rmatch (ChrI 115) y = []"
        using t that by (cases t) (auto simp: one_def canon_s)
      from leads_Opt_skip [OF this] that show ?thesis
        by simp
    qed
    show ?thesis
      by (rule leads_Seq [OF 1 2])
  next
    case (stars u4 k)
    have 1: "leads_to (litI ''star'') st (k # t) (caps st)"
      using leads_litI [of "''star''" u4 st "k # t"] stars assms(3) by simp
    have 2: "leads_to (Opt (ChrI 115)) y t (caps st)" if "rest y = k # t" "caps y = caps st" for y
      using leads_Opt_take [OF leads_ChrI [of y k t 115]] that stars(3) by (simp add: canon_s)
    show ?thesis
      by (rule leads_Seq [OF 1 2])
  qed
  from leads_Opt_take [OF leads_Alt_left [OF this]]
  have "leads_to unit_part st t (caps st)"
    by (simp add: unit_part_def)
  then show ?thesis
    by (rule finishes_then_comment [OF _ assms(2,4)])
qed

lemma finishes_unit_slash5:
  assumes "dash_comment t c" and "rest st = js ''/5'' @ t" and "caps st 2 = None"
  shows "finishes (Seq unit_part comment_part) st (caps st 1) c"
proof -
  have "rmatch (litI ''star'') st = []"
    using assms(2) by (intro star_first) (simp add: js_def canonicalize_def)
  then have 1: "rmatch (Seq (litI ''star'') (Opt (ChrI 115))) st = []"
    by simp
  have 2: "leads_to (lit ''/5'') st t (caps st)"
    using leads_lit [of "''/5''" st t] assms(2) by simp
  from leads_Opt_take [OF leads_Alt_right [OF 1 2]]
  have "leads_to unit_part st t (caps st)"
    by (simp add: unit_part_def)
  then show ?thesis
    by (rule finishes_then_comment [OF _ assms(1,3)])
qed

lemma unit_stuck_at_five:
  assumes "rest st = 53 # t"
  shows "rmatch (Seq unit_part comment_part) st = []"
proof -
  have a: "rmatch (litI ''star'') st = []"
    using assms by (intro star_first) (simp add: canonicalize_def)
  have b: "rmatch (lit ''/5'') st = []"
    using assms by (intro fails_lit) simp_all
  have u: "rmatch unit_part st = [st]"
    using a b by (simp add: unit_part_def)
  have "star isWhiteSpace (53 # t) = [53 # t]"
    by (simp add: isWhiteSpace_def)
  then have "rmatch comment_part st = []"
    using assms by (simp add: comment_part_def one_def isDash_def advance_def)
  with u show ?thesis
    by simp
qed

lemma pattern1_shape: "pattern1 = Seq Bol (Seq (Group 1 (Class isDigit)) after_digit)"
  by (simp add: pattern1_def after_digit_def unit_part_def comment_part_def)

lemma pattern2_shape:
  "pattern2 =
     Seq (Alt (litI ''rating'') (litI ''score''))
       (Seq (Chr 58) (Seq (Star isWhiteSpace) (Seq (Group 1 (Class isDigit)) comment_part)))"
  by (simp add: pattern2_def comment_part_def)

lemma blank_slash_or_space: "blank w \<Longrightarrow> \<forall>c \<in> set w. isSlashOrSpace c"
  by (simp add: blank_def isSlashOrSpace_def)

lemma dash_not_slash_or_space: "isDash d \<Longrightarrow> \<not> isSlashOrSpace d"
  by (auto simp: isDash_def isSlashOrSpace_def isWhiteSpace_def)

lemma s_not_slash_or_space: "canonicalize k = 83 \<Longrightarrow> \<not> isSlashOrSpace k"
  by (auto simp: isSlashOrSpace_def isWhiteSpace_def canonicalize_def split: if_splits)

lemma after_digit_none:
  assumes "dash_comment t c" and "rest st = t" and "caps st 2 = None"
  shows "finishes after_digit st (caps st 1) c"
  using assms(1)
proof (cases rule: dash_comment.cases)
  case no_comment
  have 1: "leads_to (Star isSlashOrSpace) st [] (caps st)"
    using leads_Star [of st "[]" "[]" isSlashOrSpace] assms(2) no_comment by simp
  have 2: "finishes (Seq unit_part comment_part) y (caps st 1) c"
    if "rest y = []" "caps y = caps st" for y
    using finishes_unit_none [OF assms(1), of y] that assms(3) no_comment by simp
  show ?thesis
    unfolding after_digit_def by (rule finishes_Seq [OF 1 2])
next
  case (with_comment w2 d w3)
  have 1: "leads_to (Star isSlashOrSpace) st (d # w3 @ c) (caps st)"
    using leads_Star [of st w2 "d # w3 @ c" isSlashOrSpace] assms(2) with_comment
      blank_slash_or_space dash_not_slash_or_space by simp
  have t': "dash_comment ([] @ d # w3 @ c) c"
    using with_comment by (intro dash_comment.with_comment) (simp_all add: blank_def)
  have 2: "finishes (Seq unit_part comment_part) y (caps st 1) c"
    if "rest y = d # w3 @ c" "caps y = caps st" for y
    using finishes_unit_none [OF t', of y] that assms(3) by simp
  show ?thesis
    unfolding after_digit_def by (rule finishes_Seq [OF 1 2])
qed

lemma after_digit_star:
  assumes "blank w" and "star_word u" and "dash_comment t c" and "rest st = w @ u @ t"
    and "caps st 2 = None"
  shows "finishes after_digit st (caps st 1) c"
proof -
  from star_word_hd [OF assms(2)] have "u @ t \<noteq> []" "\<not> isSlashOrSpace (hd (u @ t))"
    using s_not_slash_or_space by auto
  then have 1: "leads_to (Star isSlashOrSpace) st (u @ t) (caps st)"
    using leads_Star [of st w "u @ t" isSlashOrSpace] assms(1,4) blank_slash_or_space by simp
  have 2: "finishes (Seq unit_part comment_part) y (caps st 1) c"
    if "rest y = u @ t" "caps y = caps st" for y
    using finishes_unit_star [OF assms(2,3), of y] that assms(5) by simp
  show ?thesis
    unfolding after_digit_def by (rule finishes_Seq [OF 1 2])
qed

lemma after_digit_slash5:
  assumes "blank w" and "dash_comment t c" and "rest st = w @ js ''/5'' @ t"
    and "caps st 2 = None"
  shows "finishes after_digit st (caps st 1) c"
proof -
  have r: "rest st = w @ 47 # 53 # t"
    using assms(3) by (simp add: js_def)
  have 1: "finishes (Seq unit_part comment_part) y (caps st 1) c"
    if "rest y = 47 # 53 # t" "caps y = caps st" for y
    using finishes_unit_slash5 [OF assms(2), of y] that assms(4) by (simp add: js_def)
  show ?thesis
    unfolding after_digit_def
  proof (rule finishes_Star_retry [OF r _ _ _ _ 1])
    show "\<forall>c \<in> set w. isSlashOrSpace c"
      using assms(1) by (rule blank_slash_or_space)
    show "isSlashOrSpace 47"
      by (simp add: isSlashOrSpace_def)
    show "53 # t = [] \<or> \<not> isSlashOrSpace (hd (53 # t))"
      by (simp add: isSlashOrSpace_def isWhiteSpace_def)
    show "rmatch (Seq unit_part comment_part) y = []" if "rest y = 53 # t" for y
      using that by (rule unit_stuck_at_five)
  qed
qed

lemma rating_digit_props:
  "1 \<le> r \<Longrightarrow> r \<le> 5 \<Longrightarrow>
   isDigit (rating_digit r) \<and> \<not> isWhiteSpace (rating_digit r) \<and>
   parseInt (Some [rating_digit r]) = Some r"
  by (auto simp: rating_digit_def isDigit_def isWhiteSpace_def parseInt_def)

lemma finishes_rated:
  assumes "finishes p \<lparr>pos = 0, rest = s, caps = Map.empty\<rparr> (Some [rating_digit r]) c"
    and "s \<noteq> []" and "1 \<le> r" and "r \<le> 5"
  shows "rated (match s p) = Some (r, c)"
proof -
  from assms(1) obtain y where y: "hd_match p \<lparr>pos = 0, rest = s, caps = Map.empty\<rparr> = Some y"
    "caps y 1 = Some [rating_digit r]" "or_empty (caps y 2) = c"
    unfolding finishes_def by blast
  from assms(2) obtain a as where "s = a # as"
    by (cases s) auto
  with exec_from_hd [of p 0 a as y] y(1) have "match s p = Some (caps y)"
    by (simp add: match_def)
  with y(2,3) rating_digit_props [OF assms(3,4)] assms(3,4) show ?thesis
    by (simp add: rated_def)
qed

lemma pattern1_body:
  assumes "1 \<le> r" and "r \<le> 5"
    and "\<And>st. rest st = x \<Longrightarrow> caps st 2 = None \<Longrightarrow> finishes after_digit st (caps st 1) c"
  shows "rated (match (rating_digit r # x) pattern1) = Some (r, c)"
proof -
  let ?st = "\<lparr>pos = 0, rest = rating_digit r # x, caps = Map.empty\<rparr>"
  let ?g = "Map.empty(1 \<mapsto> [rating_digit r])"
  have 1: "leads_to Bol ?st (rating_digit r # x) Map.empty"
    using leads_Bol [of ?st] by simp
  have 2: "leads_to (Group 1 (Class isDigit)) y x ?g"
    if "rest y = rating_digit r # x" "caps y = Map.empty" for y
    using leads_Group [OF leads_Class [of y "rating_digit r" x isDigit], of 1] that
      rating_digit_props [OF assms(1,2)] by simp
  have 3: "finishes after_digit y (Some [rating_digit r]) c" if "rest y = x" "caps y = ?g" for y
    using assms(3) [of y] that by simp
  have "finishes (Seq Bol (Seq (Group 1 (Class isDigit)) after_digit)) ?st (Some [rating_digit r]) c"
    by (rule finishes_Seq [OF 1], rule finishes_Seq [OF 2 3])
  then show ?thesis
    unfolding pattern1_shape by (rule finishes_rated) (simp_all add: assms)
qed

lemma keyword_first:
  assumes "keyword kw"
  obtains k ks where "kw = k # ks" "canonicalize k = 82 \<or> canonicalize k = 83"
proof -
  have r: "map canonicalize (js ''rating'') = 82 # map canonicalize (js ''ating'')"
    by (simp add: js_def canonicalize_def)
  have s: "map canonicalize (js ''score'') = 83 # map canonicalize (js ''core'')"
    by (simp add: js_def canonicalize_def)
  from assms have "map canonicalize kw = 82 # map canonicalize (js ''ating'') \<or>
      map canonicalize kw = 83 # map canonicalize (js ''core'')"
    unfolding keyword_def r s .
  then show ?thesis
    by (cases kw) (auto intro: that)
qed

lemma canon_letter:
  "canonicalize k = 82 \<or> canonicalize k = 83 \<Longrightarrow> \<not> isDigit k \<and> \<not> isWhiteSpace k"
  by (auto simp: canonicalize_def isDigit_def isWhiteSpace_def split: if_splits)

lemma keyword_hd:
  "keyword kw \<Longrightarrow> kw \<noteq> [] \<and> \<not> isDigit (hd kw) \<and> \<not> isWhiteSpace (hd kw)"
  by (erule keyword_first) (use canon_letter in auto)

lemma pattern1_misses_keyword:
  assumes "keyword kw"
  shows "rated (match (kw @ x) pattern1) = None"
proof -
  let ?st = "\<lparr>pos = 0, rest = kw @ x, caps = Map.empty\<rparr>"
  from keyword_hd [OF assms] have "one isDigit ?st = []"
    by (cases kw) (auto simp: one_def)
  then have "rmatch pattern1 ?st = []"
    unfolding pattern1_shape by simp
  then have "match (kw @ x) pattern1 = None"
    unfolding pattern1_shape by (rule match_anchored_miss)
  then show ?thesis
    by (simp add: rated_def)
qed

lemma leads_keyword:
  assumes "keyword kw" and "rest st = kw @ x"
  shows "leads_to (Alt (litI ''rating'') (litI ''score'')) st x (caps st)"
proof (cases "map canonicalize kw = map canonicalize (js ''rating'')")
  case True
  from leads_litI [of "''rating''" kw st x] True assms(2) show ?thesis
    by (intro leads_Alt_left) simp
next
  case False
  with assms(1) have s: "map canonicalize kw = map canonicalize (js ''score'')"
    by (simp add: keyword_def)
  have "map canonicalize (js ''score'') = 83 # map canonicalize (js ''core'')"
    by (simp add: js_def canonicalize_def)
  with s have "kw \<noteq> []" "canonicalize (hd kw) = 83"
    by (cases kw; simp)+
  moreover have "canonicalize (of_char (hd ''rating'')) = 82"
    by (simp add: canonicalize_def)
  ultimately have "rmatch (litI ''rating'') st = []"
    using assms(2) by (intro fails_litI) auto
  moreover have "leads_to (litI ''score'') st x (caps st)"
    using leads_litI [of "''score''" kw st x] s assms(2) by simp
  ultimately show ?thesis
    by (rule leads_Alt_right)
qed

lemma pattern2_body:
  assumes "1 \<le> r" and "r \<le> 5" and "keyword kw" and "blank w" and "dash_comment t c"
  shows "rated (match (kw @ 58 # w @ rating_digit r # t) pattern2) = Some (r, c)"
proof -
  let ?s = "kw @ 58 # w @ rating_digit r # t"
  let ?st = "\<lparr>pos = 0, rest = ?s, caps = Map.empty\<rparr>"
  let ?g = "Map.empty(1 \<mapsto> [rating_digit r])"
  note d = rating_digit_props [OF assms(1,2)]
  have 1: "leads_to (Alt (litI ''rating'') (litI ''score'')) ?st (58 # w @ rating_digit r # t) Map.empty"
    using leads_keyword [OF assms(3), of ?st "58 # w @ rating_digit r # t"] by simp
  have 2: "leads_to (Chr 58) y (w @ rating_digit r # t) Map.empty"
    if "rest y = 58 # w @ rating_digit r # t" "caps y = Map.empty" for y
    using leads_Chr [of y 58 "w @ rating_digit r # t" 58] that by simp
  have 3: "leads_to (Star isWhiteSpace) y (rating_digit r # t) Map.empty"
    if "rest y = w @ rating_digit r # t" "caps y = Map.empty" for y
    using leads_Star [of y w "rating_digit r # t" isWhiteSpace] that assms(4) d
    by (simp add: blank_def)
  have 4: "leads_to (Group 1 (Class isDigit)) y t ?g"
    if "rest y = rating_digit r # t" "caps y = Map.empty" for y
    using leads_Group [OF leads_Class [of y "rating_digit r" t isDigit], of 1] that d by simp
  have 5: "finishes comment_part y (Some [rating_digit r]) c" if "rest y = t" "caps y = ?g" for y
    using finishes_comment_part [OF assms(5), of y] that by simp
  have "finishes pattern2 ?st (Some [rating_digit r]) c"
    unfolding pattern2_shape
    by (rule finishes_Seq [OF 1], rule finishes_Seq [OF 2], assumption+,
        rule finishes_Seq [OF 3], assumption+, rule finishes_Seq [OF 4 5])
  then show ?thesis
    by (rule finishes_rated) (use assms keyword_hd [OF assms(3)] in auto)
qed

lemma trim_core:
  assumes "s \<noteq> []" and "\<not> isWhiteSpace (hd s)" and "\<not> isWhiteSpace (last s)"
    and "blank l" and "blank t"
  shows "trim (l @ s @ t) = s"
proof -
  from assms(1) obtain a s' where s: "s = a # s'"
    by (cases s) auto
  have 1: "dropWhile isWhiteSpace (l @ s @ t) = s @ t"
    using assms(2,4) s by (simp add: dropWhile_append2 blank_def)
  have "rev s \<noteq> []" "\<not> isWhiteSpace (hd (rev s))"
    using assms(1,3) by (simp_all add: hd_rev)
  then have "dropWhile isWhiteSpace (rev s) = rev s"
    by (cases "rev s") auto
  moreover have "dropWhile isWhiteSpace (rev t @ rev s) = dropWhile isWhiteSpace (rev s)"
    using assms(5) by (intro dropWhile_append2) (simp add: blank_def)
  ultimately have 2: "dropWhile isWhiteSpace (rev t @ rev s) = rev s"
    by simp
  show ?thesis
    by (simp add: trim_def 1 2)
qed

lemma tail_last:
  assumes "dash_comment t c" and "x \<noteq> []" and "\<not> isWhiteSpace (last x)"
  shows "\<not> isWhiteSpace (last (x @ t))"
  using assms by (cases rule: dash_comment.cases) (auto simp: one_line_def)

lemma star_word_last: "star_word u \<Longrightarrow> u \<noteq> [] \<and> \<not> isWhiteSpace (last u)"
proof (erule star_word_cases)
  assume a: "map canonicalize u = map canonicalize (js ''star'')"
  then have n: "u \<noteq> []"
    by (auto simp: js_def)
  from a have "last (map canonicalize u) = 82"
    by (simp add: js_def canonicalize_def)
  with n have "canonicalize (last u) = 82"
    by (simp add: last_map)
  with n show ?thesis
    using canon_letter by blast
next
  fix u4 k
  assume "u = u4 @ [k]" "canonicalize k = 83"
  then show ?thesis
    using canon_letter by auto
qed

lemma accepted_form_ends:
  assumes "1 \<le> r" and "r \<le> 5" and "accepted_form r c s"
  shows "s \<noteq> [] \<and> \<not> isWhiteSpace (hd s) \<and> \<not> isWhiteSpace (last s)"
  using assms(3)
proof (cases rule: accepted_form.cases)
  case (digit_form t)
  with tail_last [OF digit_form(2), of "[rating_digit r]"] rating_digit_props [OF assms(1,2)]
  show ?thesis by simp
next
  case (unit_form w u t)
  have "u \<noteq> [] \<and> \<not> isWhiteSpace (last u)"
    using unit_form(3) star_word_last by (auto simp: js_def isWhiteSpace_def)
  then have "\<not> isWhiteSpace (last ((rating_digit r # w @ u) @ t))"
    by (intro tail_last [OF unit_form(4)]) simp_all
  with unit_form(1) rating_digit_props [OF assms(1,2)] show ?thesis
    by simp
next
  case (keyword_form kw w t)
  have "\<not> isWhiteSpace (last ((kw @ 58 # w @ [rating_digit r]) @ t))"
    using rating_digit_props [OF assms(1,2)] by (intro tail_last [OF keyword_form(4)]) simp_all
  with keyword_form(1) keyword_hd [OF keyword_form(2)] show ?thesis
    by (simp add: hd_append)
qed

lemma accepted_form_parsed:
  assumes "1 \<le> r" and "r \<le> 5" and "accepted_form r c s"
  shows "rated (match s pattern1) = Some (r, c) \<or>
         (rated (match s pattern1) = None \<and> rated (match s pattern2) = Some (r, c))"
  using assms(3)
proof (cases rule: accepted_form.cases)
  case (digit_form t)
  have "rated (match (rating_digit r # t) pattern1) = Some (r, c)"
    using after_digit_none [OF digit_form(2)] by (intro pattern1_body assms) 
  with digit_form(1) show ?thesis
    by simp
next
  case (unit_form w u t)
  have "finishes after_digit st (caps st 1) c" if "rest st = w @ u @ t" "caps st 2 = None" for st
    using unit_form(3)
  proof
    assume "star_word u"
    from after_digit_star [OF unit_form(2) this unit_form(4) that] show ?thesis .
  next
    assume "u = js ''/5''"
    with after_digit_slash5 [OF unit_form(2,4), of st] that show ?thesis
      by simp
  qed
  then have "rated (match (rating_digit r # w @ u @ t) pattern1) = Some (r, c)"
    by (intro pattern1_body assms)
  with unit_form(1) show ?thesis
    by simp
next
  case (keyword_form kw w t)
  from pattern1_misses_keyword [OF keyword_form(2), of "58 # w @ rating_digit r # t"]
    pattern2_body [OF assms(1,2) keyword_form(2,3,4)] keyword_form(1)
  show ?thesis by simp
qed

text \<open>
  C1, as the code has it: for every rating \<open>r\<close> from 1 to 5 written in one of the four
  accepted forms, with any white space around it, \<open>parseUserFeedback\<close> returns exactly
  the rating \<open>r\<close> and the comment, where the comment is the text after the dash, on one
  line and without surrounding white space, or the empty string when there is no dash and
  comment. In particular \<open>"4 - could be more detailed"\<close> gives the rating 4 and the
  comment \<open>"could be more detailed"\<close>.
\<close>

theorem parseUserFeedback_accepts:
  assumes "1 \<le> r" and "r \<le> 5" and "accepted_form r c s" and "blank l" and "blank t"
  shows "parseUserFeedback (l @ s @ t) = Some (r, c)"
proof -
  from accepted_form_ends [OF assms(1-3)] have "trim (l @ s @ t) = s"
    using assms(4,5) by (intro trim_core) simp_all
  with accepted_form_parsed [OF assms(1-3)] show ?thesis
    by (auto simp: parseUserFeedback_def)
qed

lemma blank_examples: "blank []" "blank (js '' '')"
  by (simp_all add: blank_def js_def isWhiteSpace_def)

lemma example_comment: "dash_comment (js '' - could be more detailed'') (js ''could be more detailed'')"
proof -
  have "one_line (js ''could be more detailed'')"
    by (simp add: one_line_def js_def isWhiteSpace_def anyChar_def isLineTerminator_def)
  from with_comment [OF blank_examples(2) _ blank_examples(2) this, of 45] show ?thesis
    by (simp add: isDash_def js_def)
qed

theorem parseUserFeedback_accepts_witness:
  "parseUserFeedback (js ''4 - could be more detailed'') = Some (4, js ''could be more detailed'') \<and>
   parseUserFeedback (js ''5 stars'') = Some (5, []) \<and>
   parseUserFeedback (js ''3/5'') = Some (3, []) \<and>
   parseUserFeedback (js ''Rating: 2'') = Some (2, []) \<and>
   parseUserFeedback (js ''1'') = Some (1, [])"
proof -
  have d: "rating_digit 4 = 52" "rating_digit 5 = 53" "rating_digit 3 = 51" "rating_digit 2 = 50"
    "rating_digit 1 = 49"
    by (simp_all add: rating_digit_def)
  have a: "accepted_form 4 (js ''could be more detailed'') (rating_digit 4 # js '' - could be more detailed'')"
    by (rule digit_form [OF example_comment])
  have b: "accepted_form 5 [] (rating_digit 5 # js '' '' @ js ''stars'' @ [])"
    by (rule unit_form [OF blank_examples(2) _ no_comment]) (simp add: star_word_def)
  have c: "accepted_form 3 [] (rating_digit 3 # [] @ js ''/5'' @ [])"
    by (rule unit_form [OF blank_examples(1) _ no_comment]) simp
  have e: "accepted_form 2 [] (js ''Rating'' @ 58 # js '' '' @ rating_digit 2 # [])"
    by (rule keyword_form [OF _ blank_examples(2) no_comment])
       (simp add: keyword_def js_def canonicalize_def)
  have f: "accepted_form 1 [] (rating_digit 1 # [])"
    by (rule digit_form [OF no_comment])
  show ?thesis
    using parseUserFeedback_accepts [OF _ _ a blank_examples(1) blank_examples(1)]
      parseUserFeedback_accepts [OF _ _ b blank_examples(1) blank_examples(1)]
      parseUserFeedback_accepts [OF _ _ c blank_examples(1) blank_examples(1)]
      parseUserFeedback_accepts [OF _ _ e blank_examples(1) blank_examples(1)]
      parseUserFeedback_accepts [OF _ _ f blank_examples(1) blank_examples(1)]
    by (simp add: d js_def)
qed

text \<open>
  C1 as it is stated fails for a comment of more than one line: \<open>.\<close> does not match a
  line terminator and \<open>$\<close> matches at the end of the input only, so no pattern matches.
\<close>

theorem multi_line_comment_rejected:
  "parseUserFeedback (js ''4 - too slow\<newline>and vague'') = None"
  by (simp add: parseUserFeedback_def rated_def parseInt_def or_empty_def trim_def js_def
      isWhiteSpace_def isDigit_def isSlashOrSpace_def canonicalize_def isDash_def anyChar_def
      isLineTerminator_def match_def lit_def litI_def one_def advance_def consumed_def
      pattern1_def pattern2_def pattern3_def pattern4_def)

end
